theory Spec2Isabelle
  imports Main
begin

section \<open>Strings and character classes\<close>

text \<open>
  A Python \<open>str\<close> is modelled as a \<open>string\<close>, one \<open>char\<close> per code point; the model
  covers the code points 0 to 255.  On that range the character classes below are the
  ones of the Python runtime: \<open>is_space\<close> is both the class \<open>\s\<close> of \<open>re\<close> and the set
  removed by \<open>str.strip()\<close>, \<open>is_word\<close> is the class \<open>\w\<close>, and \<open>lower_char\<close> is
  \<open>str.lower()\<close> on one character.
\<close>

definition newline :: char where
  "newline = CHR 0x0A"

definition backtick :: char where
  "backtick = CHR 0x60"

definition between :: "nat \<Rightarrow> char \<Rightarrow> nat \<Rightarrow> bool" where
  "between lo c hi = (lo \<le> of_char c \<and> (of_char c :: nat) \<le> hi)"

definition is_space :: "char \<Rightarrow> bool" where
  "is_space c = (between 0x09 c 0x0D \<or> between 0x1C c 0x20 \<or> c = CHR 0x85 \<or> c = CHR 0xA0)"

definition is_word :: "char \<Rightarrow> bool" where
  "is_word c =
     (between 0x30 c 0x39 \<or> between 0x41 c 0x5A \<or> c = CHR ''_'' \<or> between 0x61 c 0x7A
      \<or> c = CHR 0xAA \<or> between 0xB2 c 0xB3 \<or> c = CHR 0xB5 \<or> between 0xB9 c 0xBA
      \<or> between 0xBC c 0xBE \<or> between 0xC0 c 0xD6 \<or> between 0xD8 c 0xF6
      \<or> between 0xF8 c 0xFF)"

definition lower_char :: "char \<Rightarrow> char" where
  "lower_char c =
     (if between 0x41 c 0x5A \<or> between 0xC0 c 0xD6 \<or> between 0xD8 c 0xDE
      then char_of (of_char c + (32 :: nat)) else c)"

definition lower :: "string \<Rightarrow> string" where
  "lower s = map lower_char s"

text \<open>\<open>str.strip()\<close>: drop the white space at both ends.\<close>

definition lstrip :: "string \<Rightarrow> string" where
  "lstrip s = dropWhile is_space s"

definition rstrip :: "string \<Rightarrow> string" where
  "rstrip s = rev (dropWhile is_space (rev s))"

definition strip :: "string \<Rightarrow> string" where
  "strip s = rstrip (lstrip s)"

section \<open>The regular expressions of the program\<close>

text \<open>
  The program uses Python's \<open>re\<close> module, a backtracking matcher.  The fragment it needs
  is embedded with its search order: \<open>ms r st\<close> lists, in the order in which the
  matcher tries them, the states in which a match of \<open>r\<close> started in state \<open>st\<close> can
  end.  A state is the text behind the current position (reversed, for the lookbehind),
  the text ahead of it, and the groups captured so far.
\<close>

datatype rx =
    Lit string                  \<comment> \<open>literal text\<close>
  | LitI string                 \<comment> \<open>literal text under \<open>re.IGNORECASE\<close>\<close>
  | Plus "char \<Rightarrow> bool"         \<comment> \<open>\<open>[class]+\<close>, greedy\<close>
  | Star "char \<Rightarrow> bool"         \<comment> \<open>\<open>[class]*\<close>, greedy\<close>
  | Lazy "char \<Rightarrow> bool"         \<comment> \<open>\<open>[class]*?\<close>, shortest first\<close>
  | NotBehind "char \<Rightarrow> bool"    \<comment> \<open>\<open>(?<![class])\<close>\<close>
  | Opt rx                      \<comment> \<open>\<open>(r)?\<close>, greedy\<close>
  | Alt rx rx                   \<comment> \<open>\<open>r1|r2\<close>\<close>
  | Grp rx                      \<comment> \<open>a capturing group \<open>(r)\<close>\<close>
  | Then rx rx                  \<comment> \<open>\<open>r1 r2\<close>\<close>

record mstate =
  behind :: string
  ahead :: string
  caps :: "string list"

definition advance :: "mstate \<Rightarrow> nat \<Rightarrow> mstate" where
  "advance st k =
     st\<lparr>behind := rev (take k (ahead st)) @ behind st, ahead := drop k (ahead st)\<rparr>"

definition run_length :: "(char \<Rightarrow> bool) \<Rightarrow> mstate \<Rightarrow> nat" where
  "run_length p st = length (takeWhile p (ahead st))"

definition capture :: "mstate \<Rightarrow> mstate \<Rightarrow> mstate" where
  "capture st st' =
     st'\<lparr>caps := caps st' @ [take (length (ahead st) - length (ahead st')) (ahead st)]\<rparr>"

primrec ms :: "rx \<Rightarrow> mstate \<Rightarrow> mstate list" where
  "ms (Lit l) st =
     (if take (length l) (ahead st) = l then [advance st (length l)] else [])"
| "ms (LitI l) st =
     (if lower (take (length l) (ahead st)) = lower l then [advance st (length l)] else [])"
| "ms (Plus p) st = map (advance st) (rev [1 ..< Suc (run_length p st)])"
| "ms (Star p) st = map (advance st) (rev [0 ..< Suc (run_length p st)])"
| "ms (Lazy p) st = map (advance st) [0 ..< Suc (run_length p st)]"
| "ms (NotBehind p) st =
     (case behind st of [] \<Rightarrow> [st] | c # _ \<Rightarrow> if p c then [] else [st])"
| "ms (Opt r) st = ms r st @ [st]"
| "ms (Alt r1 r2) st = ms r1 st @ ms r2 st"
| "ms (Grp r) st = map (capture st) (ms r st)"
| "ms (Then r1 r2) st = concat (map (ms r2) (ms r1 st))"

text \<open>
  The matcher takes the first end state; where the previous match was empty and ended at
  this very position (\<open>must\<close>, the matcher's \<open>must_advance\<close>), it takes the first end
  state that consumes something.
\<close>

definition first_match :: "rx \<Rightarrow> bool \<Rightarrow> string \<Rightarrow> string \<Rightarrow> mstate option" where
  "first_match r must b s =
     List.find (\<lambda>st'. \<not> must \<or> length (ahead st') < length s)
       (ms r \<lparr>behind = b, ahead = s, caps = []\<rparr>)"

lemma advance_ahead: "ahead (advance st k) = drop k (ahead st)"
  by (simp add: advance_def)

lemma capture_ahead: "ahead (capture st st') = ahead st'"
  by (simp add: capture_def)

lemma ms_length:
  "\<forall>st st'. st' \<in> set (ms r st) \<longrightarrow> length (ahead st') \<le> length (ahead st)"
proof (induction r)
  case (Lit l)
  show ?case by (simp add: advance_ahead)
next
  case (LitI l)
  show ?case by (simp add: advance_ahead)
next
  case (Plus p)
  show ?case by (auto simp: advance_ahead)
next
  case (Star p)
  show ?case by (auto simp: advance_ahead)
next
  case (Lazy p)
  show ?case by (auto simp: advance_ahead)
next
  case (NotBehind p)
  show ?case by (simp split: list.splits)
next
  case (Opt r)
  then show ?case by auto
next
  case (Alt r1 r2)
  then show ?case by auto
next
  case (Grp r)
  then show ?case by (auto simp: capture_ahead)
next
  case (Then r1 r2)
  show ?case
  proof (intro allI impI)
    fix st st' assume "st' \<in> set (ms (Then r1 r2) st)"
    then obtain st1 where a: "st1 \<in> set (ms r1 st)" and b: "st' \<in> set (ms r2 st1)"
      by auto
    from Then.IH(1) a have "length (ahead st1) \<le> length (ahead st)" by blast
    moreover from Then.IH(2) b have "length (ahead st') \<le> length (ahead st1)" by blast
    ultimately show "length (ahead st') \<le> length (ahead st)" by simp
  qed
qed

lemma first_match_length:
  assumes "first_match r must b s = Some st'"
  shows "length (ahead st') \<le> length s" and "must \<Longrightarrow> length (ahead st') < length s"
proof -
  from assms obtain i where i: "i < length (ms r \<lparr>behind = b, ahead = s, caps = []\<rparr>)"
    and e: "ms r \<lparr>behind = b, ahead = s, caps = []\<rparr> ! i = st'"
    and c: "\<not> must \<or> length (ahead st') < length s"
    unfolding first_match_def find_Some_iff by blast
  from i e have "st' \<in> set (ms r \<lparr>behind = b, ahead = s, caps = []\<rparr>)"
    by (metis nth_mem)
  with ms_length show "length (ahead st') \<le> length s" by fastforce
  from c show "must \<Longrightarrow> length (ahead st') < length s" by simp
qed

text \<open>
  One pass over the text, as \<open>re.sub\<close> and \<open>re.findall\<close> make it: at each position the
  matcher is tried; a match is recorded (its text and its groups) and the pass goes on
  behind it, and where there is none the character is passed over.
\<close>

datatype piece = Skipped char | Matched string "string list"

function re_iter :: "rx \<Rightarrow> bool \<Rightarrow> string \<Rightarrow> string \<Rightarrow> piece list" where
  "re_iter r must b s =
     (case first_match r must b s of
        Some st' \<Rightarrow>
          Matched (take (length s - length (ahead st')) s) (caps st')
            # re_iter r (length (ahead st') = length s) (behind st') (ahead st')
      | None \<Rightarrow> (case s of [] \<Rightarrow> [] | c # cs \<Rightarrow> Skipped c # re_iter r False (c # b) cs))"
  by pat_completeness auto
termination
proof (relation "measure (\<lambda>(r, must, b, s). 2 * length s + (if must then 0 else 1))")
  fix r must b s st'
  assume f: "first_match r must b s = Some st'"
  from first_match_length[OF f]
  show "((r, length (ahead st') = length s, behind st', ahead st'), r, must, b, s)
        \<in> measure (\<lambda>(r, must, b, s). 2 * length s + (if must then 0 else 1))"
    by (cases must) auto
qed simp_all

declare re_iter.simps [simp del]

text \<open>\<open>re.sub(r, repl, s)\<close>, the replacement given as a function of the matched text;
  \<open>re.findall(r, s)\<close>, giving the groups of each match; \<open>re.search(r, s)\<close>, giving the
  groups of the leftmost match.\<close>

definition piece_text :: "(string \<Rightarrow> string) \<Rightarrow> piece \<Rightarrow> string" where
  "piece_text repl p = (case p of Skipped c \<Rightarrow> [c] | Matched m g \<Rightarrow> repl m)"

definition re_sub :: "rx \<Rightarrow> (string \<Rightarrow> string) \<Rightarrow> string \<Rightarrow> string" where
  "re_sub r repl s = concat (map (piece_text repl) (re_iter r False [] s))"

text \<open>The three replacements of the program: \<open>''\<close>, \<open>'\n'\<close> and \<open>\g<0>.\n\<close>.\<close>

definition delete :: "string \<Rightarrow> string" where
  "delete m = []"

definition to_newline :: "string \<Rightarrow> string" where
  "to_newline m = [newline]"

definition add_dot :: "string \<Rightarrow> string" where
  "add_dot m = m @ ''.'' @ [newline]"

definition piece_groups :: "piece \<Rightarrow> string list list" where
  "piece_groups p = (case p of Skipped c \<Rightarrow> [] | Matched m g \<Rightarrow> [g])"

definition re_findall :: "rx \<Rightarrow> string \<Rightarrow> string list list" where
  "re_findall r s = concat (map piece_groups (re_iter r False [] s))"

fun search_from :: "rx \<Rightarrow> string \<Rightarrow> string \<Rightarrow> string list option" where
  "search_from r b [] = map_option caps (first_match r False b [])"
| "search_from r b (c # cs) =
     (case first_match r False b (c # cs) of
        Some st' \<Rightarrow> Some (caps st')
      | None \<Rightarrow> search_from r (c # b) cs)"

definition re_search :: "rx \<Rightarrow> string \<Rightarrow> string list option" where
  "re_search r s = search_from r [] s"

section \<open>The patterns\<close>

text \<open>
  The first cleaning step removes the runs of characters outside a class: the word
  characters \<open>\w\<close>, the white space \<open>\s\<close> and the sixteen characters
  \<^verbatim>\<open>@ ; : [ ] { } ( ) < > = . - " /\<close>.  That class is \<open>turtle_char\<close>.  The pattern \<open>.\<close> is
  \<open>not_newline\<close>, and any character under \<open>re.DOTALL\<close>.
\<close>

definition turtle_char :: "char \<Rightarrow> bool" where
  "turtle_char c =
     (c \<in> set [CHR ''@'', CHR '';'', CHR '':'', CHR ''['', CHR '']'', CHR ''{'', CHR ''}'',
                CHR ''('', CHR '')'', CHR ''<'', CHR ''>'', CHR ''='', CHR ''.'', CHR ''-'',
                CHR 0x22, CHR ''/'']
      \<or> is_word c \<or> is_space c)"

definition not_newline :: "char \<Rightarrow> bool" where
  "not_newline c = (c \<noteq> newline)"

definition any_char :: "char \<Rightarrow> bool" where
  "any_char c = True"

definition fence :: string where
  "fence = [backtick, backtick, backtick]"

text \<open>One or more characters outside the class: the pattern of the first cleaning step.\<close>

definition rx_non_turtle :: rx where
  "rx_non_turtle = Plus (\<lambda>c. \<not> turtle_char c)"

text \<open>\<^verbatim>\<open>\n\s*\n\<close>\<close>

definition rx_blank_lines :: rx where
  "rx_blank_lines = Then (Lit [newline]) (Then (Star is_space) (Lit [newline]))"

text \<open>\<^verbatim>\<open>```(turtle|ttl)?\s*\<close>\<close>

definition rx_fence_tagged :: rx where
  "rx_fence_tagged =
     Then (Lit fence) (Then (Opt (Grp (Alt (Lit ''turtle'') (Lit ''ttl'')))) (Star is_space))"

text \<open>\<^verbatim>\<open>```\s*\<close>\<close>

definition rx_fence :: rx where
  "rx_fence = Then (Lit fence) (Star is_space)"

text \<open>\<^verbatim>\<open>@prefix\s*.*?\s*(?<!.)\n\<close>\<close>

definition rx_prefix_line :: rx where
  "rx_prefix_line =
     Then (Lit ''@prefix'') (Then (Star is_space) (Then (Lazy not_newline)
       (Then (Star is_space) (Then (NotBehind not_newline) (Lit [newline])))))"

text \<open>\<^verbatim>\<open>@prefix\<close> under \<open>re.IGNORECASE\<close>\<close>

definition rx_prefix :: rx where
  "rx_prefix = LitI ''@prefix''"

text \<open>\<^verbatim>\<open>```(?:turtle)?\s*(.*?)```\<close> under \<open>re.DOTALL\<close>\<close>

definition shacl_pattern :: rx where
  "shacl_pattern =
     Then (Lit fence) (Then (Opt (Lit ''turtle'')) (Then (Star is_space)
       (Then (Grp (Lazy any_char)) (Lit fence))))"

text \<open>\<^verbatim>\<open>- (\w+):\<close>\<close>

definition rx_entity :: rx where
  "rx_entity = Then (Lit ''- '') (Then (Grp (Plus is_word)) (Lit '':''))"

text \<open>\<^verbatim>\<open>- (\w+): (.*?)\n\<close>\<close>

definition rx_property :: rx where
  "rx_property =
     Then (Lit ''- '') (Then (Grp (Plus is_word)) (Then (Lit '': '')
       (Then (Grp (Lazy not_newline)) (Lit [newline]))))"

section \<open>Exceptions\<close>

text \<open>
  An exception is its class name and its message, the text \<open>str(e)\<close>.  \<open>Exn\<close> is an
  exception whose class derives from \<open>Exception\<close>; \<open>BaseExn\<close> is one whose class derives
  from \<open>BaseException\<close> only, as \<open>KeyboardInterrupt\<close>, \<open>SystemExit\<close> and \<open>GeneratorExit\<close>
  do.  A computation that may raise returns \<open>exn + 'a\<close>, with \<open>Inl\<close> for the exception
  raised.  \<open>try_except\<close> is \<open>try: ... except Exception as e: ...\<close>: the handler gets the
  exceptions of class \<open>Exception\<close>, and the others go on to the caller.
\<close>

datatype exn = Exn string string | BaseExn string string

definition message :: "exn \<Rightarrow> string" where
  "message e = (case e of Exn c m \<Rightarrow> m | BaseExn c m \<Rightarrow> m)"

definition and_then :: "exn + 'a \<Rightarrow> ('a \<Rightarrow> exn + 'b) \<Rightarrow> exn + 'b" where
  "and_then m f = (case m of Inl e \<Rightarrow> Inl e | Inr v \<Rightarrow> f v)"

definition try_except :: "exn + 'a \<Rightarrow> (exn \<Rightarrow> exn + 'a) \<Rightarrow> exn + 'a" where
  "try_except body handler =
     (case body of
        Inl (Exn c m) \<Rightarrow> handler (Exn c m)
      | Inl (BaseExn c m) \<Rightarrow> Inl (BaseExn c m)
      | Inr v \<Rightarrow> Inr v)"

text \<open>A text of several lines, each ended by a newline: a triple-quoted literal.\<close>

definition unlines :: "string list \<Rightarrow> string" where
  "unlines ls = concat (map (\<lambda>l. l @ [newline]) ls)"

section \<open>\<open>validate_shacl\<close>\<close>

text \<open>
  The Turtle parser (\<open>Graph().parse\<close> of rdflib) and the SHACL validator (\<open>validate\<close> of
  pyshacl) are libraries: they are parameters \<open>parse\<close> and \<open>validate\<close>, which return a
  graph, or the conformance flag and the report text, or raise.  The logging calls are
  left out.  \<open>validate_shacl_clean\<close> is the body up to the \<open>@prefix\<close> substitution,
  \<open>validate_shacl_doc\<close> the document handed to the parser.
\<close>

definition validate_prefixes :: string where
  "validate_prefixes = unlines
     [''@prefix ex: <http://example.org/> .'',
      ''@prefix sh: <http://www.w3.org/ns/shacl#> .'',
      ''@prefix rdf: <http://www.w3.org/1999/02/22-rdf-syntax-ns#> .'',
      ''@prefix rdfs: <http://www.w3.org/2000/01/rdf-schema#> .'',
      ''@prefix xsd: <http://www.w3.org/2001/XMLSchema#> .'',
      ''@prefix schema: <https://schema.org/> .'',
      []]"

definition validate_shacl_clean :: "string \<Rightarrow> string" where
  "validate_shacl_clean shacl_doc =
     (let shacl_doc = re_sub rx_non_turtle delete shacl_doc;
          shacl_doc = re_sub rx_blank_lines to_newline shacl_doc;
          shacl_doc = re_sub rx_fence_tagged delete shacl_doc;
          shacl_doc = re_sub rx_fence delete shacl_doc;
          shacl_doc = strip shacl_doc;
          shacl_doc = re_sub rx_prefix_line add_dot shacl_doc
      in shacl_doc)"

definition validate_shacl_doc :: "string \<Rightarrow> string" where
  "validate_shacl_doc shacl_doc =
     (let shacl_doc = validate_shacl_clean shacl_doc
      in if re_search rx_prefix shacl_doc = None then validate_prefixes @ shacl_doc
         else shacl_doc)"

definition validate_shacl ::
  "(string \<Rightarrow> exn + 'g) \<Rightarrow> ('g \<Rightarrow> exn + bool \<times> string) \<Rightarrow> string \<Rightarrow> exn + bool \<times> string" where
  "validate_shacl parse validate shacl_doc =
     (let shacl_doc = validate_shacl_doc shacl_doc
      in try_except
           (and_then (parse shacl_doc) (\<lambda>g.
            and_then (validate g) (\<lambda>(conforms, results_text).
            Inr (conforms, results_text))))
           (\<lambda>e. Inr (False, message e)))"

section \<open>\<open>auto_correct_shacl\<close>\<close>

text \<open>
  \<open>classes_and_properties\<close> is a dictionary from class names to lists of property
  dictionaries.  A dictionary is an association list in insertion order, the order in
  which \<open>items()\<close> and the \<open>for\<close> loops go through it; a value is a string or an integer.
\<close>

datatype pyval = PStr string | PInt int

type_synonym prop_dict = "(string \<times> pyval) list"

type_synonym classes = "(string \<times> prop_dict list) list"

text \<open>\<open>str(n)\<close> for an integer, and the text an f-string puts for a value.\<close>

function str_nat :: "nat \<Rightarrow> string" where
  "str_nat n =
     (if n < 10 then [char_of (48 + n)] else str_nat (n div 10) @ [char_of (48 + n mod 10)])"
  by pat_completeness auto
termination
  by (relation "measure id") auto

declare str_nat.simps [simp del]

definition str_int :: "int \<Rightarrow> string" where
  "str_int i = (if i < 0 then ''-'' @ str_nat (nat (- i)) else str_nat (nat i))"

definition format :: "pyval \<Rightarrow> string" where
  "format v = (case v of PStr s \<Rightarrow> s | PInt i \<Rightarrow> str_int i)"

text \<open>\<open>d[k]\<close>: the value, or \<open>KeyError\<close> with the \<open>repr\<close> of the key.\<close>

definition getitem :: "(string \<times> 'v) list \<Rightarrow> string \<Rightarrow> exn + 'v" where
  "getitem d k =
     (case map_of d k of
        None \<Rightarrow> Inl (Exn ''KeyError'' ([CHR 0x27] @ k @ [CHR 0x27]))
      | Some v \<Rightarrow> Inr v)"

definition auto_correct_prefixes :: string where
  "auto_correct_prefixes = unlines
     [''@prefix ex: <http://example.org/> .'',
      ''@prefix sh: <http://www.w3.org/ns/shacl#> .'',
      ''@prefix schema: <https://schema.org/> .'',
      ''@prefix xsd: <http://www.w3.org/2001/XMLSchema#> .'',
      []]"

definition auto_correct_shacl_clean :: "string \<Rightarrow> string" where
  "auto_correct_shacl_clean shacl_doc =
     (let shacl_doc = re_sub rx_non_turtle delete shacl_doc;
          shacl_doc = re_sub rx_blank_lines to_newline shacl_doc;
          shacl_doc = re_sub rx_fence_tagged delete shacl_doc;
          shacl_doc = re_sub rx_fence delete shacl_doc;
          shacl_doc = strip shacl_doc;
          shacl_doc = re_sub rx_prefix_line add_dot shacl_doc
      in shacl_doc)"

definition auto_correct_shacl_doc :: "string \<Rightarrow> string" where
  "auto_correct_shacl_doc shacl_doc =
     (let shacl_doc = auto_correct_shacl_clean shacl_doc
      in if re_search rx_prefix shacl_doc = None then auto_correct_prefixes @ shacl_doc
         else shacl_doc)"

text \<open>The basic document built when parsing fails: the two nested \<open>for\<close> loops, each
  adding to \<open>base_shacl\<close>.\<close>

definition base_shacl_init :: string where
  "base_shacl_init =
     ''@prefix ex: <http://example.org/> .'' @ [newline]
     @ ''@prefix sh: <http://www.w3.org/ns/shacl#> .'' @ [newline]
     @ ''@prefix schema: <https://schema.org/> .'' @ [newline]
     @ ''@prefix xsd: <http://www.w3.org/2001/XMLSchema#> .'' @ [newline] @ [newline]"

definition shape_head :: "string \<Rightarrow> string" where
  "shape_head class_name = unlines
     [''ex:'' @ class_name,
      ''    a sh:NodeShape ;'',
      ''    sh:targetClass schema:'' @ class_name @ '' ;'']"

definition property_block :: "string \<Rightarrow> string" where
  "property_block path = unlines
     [''    sh:property ['',
      ''        sh:path schema:'' @ path @ '' ;'',
      ''        sh:datatype xsd:string ;'',
      ''        sh:minCount 1 ;'',
      ''        sh:maxCount 1 ;'',
      ''    ] ;'']"

fun add_properties :: "string \<Rightarrow> prop_dict list \<Rightarrow> exn + string" where
  "add_properties base_shacl [] = Inr base_shacl"
| "add_properties base_shacl (prop # properties) =
     and_then (getitem prop ''path'') (\<lambda>path.
     add_properties (base_shacl @ property_block (format path)) properties)"

fun add_shapes :: "string \<Rightarrow> classes \<Rightarrow> exn + string" where
  "add_shapes base_shacl [] = Inr base_shacl"
| "add_shapes base_shacl ((class_name, properties) # items) =
     and_then (add_properties (base_shacl @ shape_head class_name) properties) (\<lambda>base_shacl.
     add_shapes base_shacl items)"

definition basic_shacl :: "classes \<Rightarrow> exn + string" where
  "basic_shacl classes_and_properties =
     and_then (add_shapes base_shacl_init classes_and_properties) (\<lambda>base_shacl.
     Inr (base_shacl @ ''.''))"

definition auto_correct_shacl ::
  "(string \<Rightarrow> exn + 'g) \<Rightarrow> string \<Rightarrow> classes \<Rightarrow> exn + string" where
  "auto_correct_shacl parse shacl_doc classes_and_properties =
     (let shacl_doc = auto_correct_shacl_doc shacl_doc
      in try_except
           (and_then (parse shacl_doc) (\<lambda>g. Inr shacl_doc))
           (\<lambda>e. basic_shacl classes_and_properties))"

section \<open>The chat client\<close>

text \<open>
  \<open>OpenAIClient\<close> keeps the chat history, a list of messages.  The chat service is
  outside the program: it is the parameter \<open>api\<close>, which for a model name and the
  messages sent gives the content of the first choice of the reply, or raises.  The
  history grows with every attempt, so that a function of the messages can give a
  different outcome at every call.  The field \<open>trace\<close> is not in the program: it records
  what the client did to the outside, the requests it sent and the seconds it slept, in
  order.  The logging calls are left out.
\<close>

record message =
  role :: string
  content :: string

datatype effect = Create string "message list" | Sleep nat

record client =
  history :: "message list"
  trace :: "effect list"

type_synonym api = "string \<Rightarrow> message list \<Rightarrow> exn + string"

definition system_message :: message where
  "system_message =
     \<lparr>role = ''system'',
      content = ''You are an assistant responding to queries about Schema.org concepts.''\<rparr>"

definition user_message :: "string \<Rightarrow> message" where
  "user_message prompt = \<lparr>role = ''user'', content = prompt\<rparr>"

definition assistant_message :: "string \<Rightarrow> message" where
  "assistant_message ai_response = \<lparr>role = ''assistant'', content = ai_response\<rparr>"

definition OpenAIClient_init :: client where
  "OpenAIClient_init = \<lparr>history = [system_message], trace = []\<rparr>"

text \<open>
  \<open>ask\<close>: the loop \<open>for attempt in range(max_retries)\<close>, from \<open>attempt\<close> on.  The result is
  the value returned or the exception raised, and the client as the call leaves it.
  The value is \<open>Some\<close> of the reply, or \<open>None\<close> where the loop ends without \<open>return\<close>.
\<close>

function ask_loop ::
  "api \<Rightarrow> string \<Rightarrow> string \<Rightarrow> int \<Rightarrow> int \<Rightarrow> client \<Rightarrow> (exn + string option) \<times> client" where
  "ask_loop api prompt model max_retries attempt c =
     (if attempt < max_retries then
        (let c = c\<lparr>history := history c @ [user_message prompt]\<rparr>;
             c = c\<lparr>trace := trace c @ [Create model (history c)]\<rparr>
         in case api model (history c) of
              Inr ai_response \<Rightarrow>
                (Inr (Some ai_response),
                 c\<lparr>history := history c @ [assistant_message ai_response]\<rparr>)
            | Inl (BaseExn cls m) \<Rightarrow> (Inl (BaseExn cls m), c)
            | Inl (Exn cls m) \<Rightarrow>
                if attempt < max_retries - 1
                then ask_loop api prompt model max_retries (attempt + 1)
                       (c\<lparr>trace := trace c @ [Sleep 5]\<rparr>)
                else (Inl (Exn ''Exception''
                             (''Error communicating with OpenAI API after ''
                              @ str_int max_retries @ '' attempts: '' @ m)), c))
      else (Inr None, c))"
  by pat_completeness auto
termination
  by (relation "measure (\<lambda>(api, prompt, model, max_retries, attempt, c).
                   nat (max_retries - attempt))") auto

declare ask_loop.simps [simp del]

definition ask ::
  "api \<Rightarrow> string \<Rightarrow> string \<Rightarrow> int \<Rightarrow> client \<Rightarrow> (exn + string option) \<times> client" where
  "ask api prompt model max_retries c = ask_loop api prompt model max_retries 0 c"

text \<open>\<open>ask(prompt)\<close>, with the defaults of \<open>model\<close> and \<open>max_retries\<close>.\<close>

definition ask_default :: "api \<Rightarrow> string \<Rightarrow> client \<Rightarrow> (exn + string option) \<times> client" where
  "ask_default api prompt c = ask api prompt ''gpt-4o'' 3 c"

section \<open>The wizard\<close>

text \<open>
  \<open>extract_shacl_code\<close> searches the reply for the pattern \<open>shacl_pattern\<close> and gives the
  first group of the match, stripped; where nothing matches it gives the reply,
  stripped.
\<close>

definition extract_shacl_code :: "string \<Rightarrow> string" where
  "extract_shacl_code text =
     (case re_search shacl_pattern text of
        Some groups \<Rightarrow> strip (groups ! 0)
      | None \<Rightarrow> strip text)"

text \<open>
  \<open>str.split(sep)\<close> for a separator that is not empty, and \<open>xs[i]\<close> on a list, which raises
  \<open>IndexError\<close> outside the list.
\<close>

function py_split_from :: "string \<Rightarrow> string \<Rightarrow> string \<Rightarrow> string list" where
  "py_split_from sep part [] = [part]"
| "py_split_from sep part (c # cs) =
     (if sep \<noteq> [] \<and> take (length sep) (c # cs) = sep
      then part # py_split_from sep [] (drop (length sep) (c # cs))
      else py_split_from sep (part @ [c]) cs)"
  by pat_completeness auto
termination
  by (relation "measure (\<lambda>(sep, part, s). length s)") auto

definition py_split :: "string \<Rightarrow> string \<Rightarrow> string list" where
  "py_split sep s = py_split_from sep [] s"

definition getindex :: "'a list \<Rightarrow> nat \<Rightarrow> exn + 'a" where
  "getindex xs i =
     (if i < length xs then Inr (xs ! i) else Inl (Exn ''IndexError'' ''list index out of range''))"

text \<open>
  \<open>d[k] = v\<close> on a dictionary: the value of a key already there is replaced where it
  stands, a new key goes to the end.
\<close>

fun setitem :: "('k \<times> 'v) list \<Rightarrow> 'k \<Rightarrow> 'v \<Rightarrow> ('k \<times> 'v) list" where
  "setitem [] k v = [(k, v)]"
| "setitem ((k', v') # d) k v =
     (if k' = k then (k, v) # d else (k', v') # setitem d k v)"

text \<open>
  The two searches of \<open>process_next_step\<close>: \<open>re.findall\<close> gives the one group of each
  match of \<open>rx_entity\<close>, and the two groups of each match of \<open>rx_property\<close>.
\<close>

definition find_entities :: "string \<Rightarrow> string list" where
  "find_entities text = map (\<lambda>groups. groups ! 0) (re_findall rx_entity text)"

definition find_properties :: "string \<Rightarrow> string list list" where
  "find_properties text = re_findall rx_property text"

text \<open>
  The loops of the second step over \<open>entities\<close> and \<open>properties\<close>: each turn of the inner
  loop assigns the entry of \<open>entity\<close> anew.
\<close>

definition property_entry :: "string list \<Rightarrow> prop_dict" where
  "property_entry p =
     [(''name'', PStr (p ! 0)),
      (''description'', PStr (p ! 1)),
      (''path'', PStr (lower (p ! 0))),
      (''datatype'', PStr ''xsd:string''),
      (''minCount'', PInt 1),
      (''maxCount'', PInt 1)]"

fun assign_properties :: "classes \<Rightarrow> string \<Rightarrow> string list list \<Rightarrow> classes" where
  "assign_properties classes_and_properties entity [] = classes_and_properties"
| "assign_properties classes_and_properties entity (p # properties) =
     assign_properties (setitem classes_and_properties entity [property_entry p])
       entity properties"

fun collect_classes :: "classes \<Rightarrow> string \<Rightarrow> string list \<Rightarrow> classes" where
  "collect_classes classes_and_properties text [] = classes_and_properties"
| "collect_classes classes_and_properties text (entity # entities) =
     collect_classes
       (assign_properties classes_and_properties entity (find_properties text))
       text entities"


text \<open>
  The two loops of the first step, which write the types, their descriptions and the
  list of the types into \<open>prompt_2\<close>.  The dictionary that the first loop fills with empty
  lists is never read and is left out.
\<close>

fun describe_entities :: "string \<Rightarrow> string \<Rightarrow> string list \<Rightarrow> exn + string" where
  "describe_entities formatted_response_1 prompt_2 [] = Inr prompt_2"
| "describe_entities formatted_response_1 prompt_2 (entity # entities) =
     and_then (getindex (py_split (''- '' @ entity @ '': '') formatted_response_1) 1) (\<lambda>rest.
     and_then (getindex (py_split [newline] rest) 0) (\<lambda>line.
     describe_entities formatted_response_1
       (prompt_2 @ ''Type: '' @ entity @ [newline]
                 @ ''Description: '' @ strip line @ [newline])
       entities))"

fun list_entities :: "string \<Rightarrow> string list \<Rightarrow> string" where
  "list_entities prompt_2 [] = prompt_2"
| "list_entities prompt_2 (entity # entities) =
     list_entities (prompt_2 @ ''- '' @ entity @ [newline]) entities"

text \<open>
  The window and the application.  A window shows the main interface with its input
  box, or a result with its buttons, or nothing, or it is destroyed; the result
  interface keeps the prompt that its buttons pass on.  The long fixed texts of the
  three prompts are parameters, the record \<open>templates\<close>; \<open>warnings\<close> lists the warning
  dialogs shown.
\<close>

datatype button = Cancel | Next | Back | Next_Step | Give_Feedback | Close

datatype window =
    Main_Interface string
  | Result_Interface string "button list" string
  | Empty
  | Destroyed

record templates =
  prompt_1_head :: string
  prompt_1_tail :: string
  prompt_2_request :: string
  prompt_2_example :: string
  prompt_3_head :: string
  prompt_3_tail :: string

record application =
  client :: client
  use_case :: string
  current_step :: int
  window :: window
  warnings :: "string list"

definition create_main_interface :: "application \<Rightarrow> application" where
  "create_main_interface app = app\<lparr>window := Main_Interface (use_case app)\<rparr>"

definition Application_init :: application where
  "Application_init =
     create_main_interface
       \<lparr>client = OpenAIClient_init,
        use_case = ''Enter your knowledge base information here...'',
        current_step = 1,
        window = Empty,
        warnings = []\<rparr>"

definition destroy :: "application \<Rightarrow> application" where
  "destroy app = app\<lparr>window := Destroyed\<rparr>"

text \<open>
  \<open>create_result_interface\<close> clears the window, extracts the code from the reply and
  shows it; the buttons depend on \<open>current_step\<close> as it is at that moment.  A reply that
  is \<open>None\<close> makes \<open>re.search\<close> raise \<open>TypeError\<close>.
\<close>

definition create_result_interface ::
  "string option \<Rightarrow> string \<Rightarrow> application \<Rightarrow> (exn + unit) \<times> application" where
  "create_result_interface result prompt app =
     (let app = app\<lparr>window := Empty\<rparr>
      in case result of
           None \<Rightarrow> (Inl (Exn ''TypeError'' ''expected string or bytes-like object''), app)
         | Some text \<Rightarrow>
             (let shacl_code = extract_shacl_code text
              in (Inr (),
                  app\<lparr>window := Result_Interface shacl_code
                     (if current_step app = 3 then [Give_Feedback, Close]
                      else [Back, Next_Step, Give_Feedback])
                     prompt\<rparr>)))"

text \<open>
  The three statements that end each step: ask, show the reply, set \<open>current_step\<close>.  An
  exception leaves the method at the statement that raises it, with the changes made
  so far.
\<close>

definition ask_and_show ::
  "api \<Rightarrow> string \<Rightarrow> int \<Rightarrow> application \<Rightarrow> (exn + unit) \<times> application" where
  "ask_and_show api prompt step app =
     (case ask_default api prompt (client app) of
        (response, c) \<Rightarrow>
          (let app = app\<lparr>client := c\<rparr>
           in case response of
                Inl e \<Rightarrow> (Inl e, app)
              | Inr result \<Rightarrow>
                  (case create_result_interface result prompt app of
                     (Inl e, app) \<Rightarrow> (Inl e, app)
                   | (Inr u, app) \<Rightarrow> (Inr (), app\<lparr>current_step := step\<rparr>))))"

text \<open>
  \<open>process_use_case\<close>; \<open>entered\<close> is the text of the input box when the button is pressed.
\<close>

definition process_use_case ::
  "api \<Rightarrow> templates \<Rightarrow> string option \<Rightarrow> string \<Rightarrow> application
     \<Rightarrow> (exn + unit) \<times> application" where
  "process_use_case api t new_prompt entered app =
     (let app = app\<lparr>use_case := (case new_prompt of None \<Rightarrow> strip entered | Some p \<Rightarrow> p)\<rparr>
      in if use_case app = []
         then (Inr (), app\<lparr>warnings := warnings app @ [''Please enter a use case.'']\<rparr>)
         else (let prompt_1 = prompt_1_head t @ use_case app @ prompt_1_tail t
               in ask_and_show api prompt_1 1 app))"

text \<open>
  \<open>process_next_step\<close>; \<open>shown\<close> is the text of the result box when the button is pressed.
\<close>

definition process_next_step ::
  "api \<Rightarrow> templates \<Rightarrow> string \<Rightarrow> string \<Rightarrow> application \<Rightarrow> (exn + unit) \<times> application" where
  "process_next_step api t prompt shown app =
     (if current_step app = 1 then
        (let formatted_response_1 = strip shown;
             entities = find_entities formatted_response_1
         in case describe_entities formatted_response_1
                   (''Here are my results:'' @ [newline]) entities of
              Inl e \<Rightarrow> (Inl e, app)
            | Inr prompt_2 \<Rightarrow>
                (let prompt_2 = prompt_2 @ prompt_2_request t;
                     prompt_2 = list_entities prompt_2 entities;
                     prompt_2 = prompt_2 @ prompt_2_example t
                 in ask_and_show api prompt_2 2 app))
      else if current_step app = 2 then
        (let formatted_response_2 = strip shown;
             entities = find_entities formatted_response_2;
             classes_and_properties = collect_classes [] formatted_response_2 entities;
             prompt_3 = prompt_3_head t @ formatted_response_2 @ prompt_3_tail t
         in ask_and_show api prompt_3 3 app)
      else if current_step app = 3 then (Inr (), destroy app)
      else (Inr (), app))"

text \<open>
  \<open>ask_for_new_prompt\<close>; \<open>answer\<close> is what the dialog returns, \<open>None\<close> when it is cancelled.
\<close>

definition ask_for_new_prompt ::
  "api \<Rightarrow> string \<Rightarrow> string option \<Rightarrow> application \<Rightarrow> (exn + unit) \<times> application" where
  "ask_for_new_prompt api prompt answer app =
     (case answer of
        None \<Rightarrow> (Inr (), app)
      | Some new_prompt \<Rightarrow>
          if new_prompt = [] then (Inr (), app)
          else (let c = client app;
                    c = c\<lparr>history := history c @ [user_message new_prompt]\<rparr>;
                    app = app\<lparr>client := c\<rparr>
                in case ask_default api new_prompt (client app) of
                     (response, c) \<Rightarrow>
                       (let app = app\<lparr>client := c\<rparr>
                        in case response of
                             Inl e \<Rightarrow> (Inl e, app)
                           | Inr result \<Rightarrow> create_result_interface result new_prompt app)))"

text \<open>
  The main loop.  An event is a button pressed, with the text of the box or the answer
  of the dialog at that moment; a button acts only while the window shows it.  An
  exception of a callback is reported by the toolkit and the loop goes on, with the
  changes the callback has made.
\<close>

datatype event =
    Press_Cancel
  | Press_Next string
  | Press_Back
  | Press_Next_Step string
  | Press_Give_Feedback "string option"
  | Press_Close

definition buttons :: "window \<Rightarrow> button list" where
  "buttons w =
     (case w of
        Main_Interface text \<Rightarrow> [Cancel, Next]
      | Result_Interface text bs prompt \<Rightarrow> bs
      | Empty \<Rightarrow> []
      | Destroyed \<Rightarrow> [])"

definition bound_prompt :: "window \<Rightarrow> string" where
  "bound_prompt w = (case w of Result_Interface text bs prompt \<Rightarrow> prompt | _ \<Rightarrow> [])"

definition button_of :: "event \<Rightarrow> button" where
  "button_of ev =
     (case ev of
        Press_Cancel \<Rightarrow> Cancel
      | Press_Next entered \<Rightarrow> Next
      | Press_Back \<Rightarrow> Back
      | Press_Next_Step shown \<Rightarrow> Next_Step
      | Press_Give_Feedback answer \<Rightarrow> Give_Feedback
      | Press_Close \<Rightarrow> Close)"

definition callback :: "api \<Rightarrow> templates \<Rightarrow> event \<Rightarrow> application \<Rightarrow> (exn + unit) \<times> application" where
  "callback api t ev app =
     (case ev of
        Press_Cancel \<Rightarrow> (Inr (), destroy app)
      | Press_Next entered \<Rightarrow> process_use_case api t None entered app
      | Press_Back \<Rightarrow> (Inr (), create_main_interface app)
      | Press_Next_Step shown \<Rightarrow>
          process_next_step api t (bound_prompt (window app)) shown app
      | Press_Give_Feedback answer \<Rightarrow>
          ask_for_new_prompt api (bound_prompt (window app)) answer app
      | Press_Close \<Rightarrow> (Inr (), destroy app))"

definition fire :: "api \<Rightarrow> templates \<Rightarrow> event \<Rightarrow> application \<Rightarrow> application" where
  "fire api t ev app =
     (if button_of ev \<in> set (buttons (window app)) then snd (callback api t ev app) else app)"

fun mainloop :: "api \<Rightarrow> templates \<Rightarrow> event list \<Rightarrow> application \<Rightarrow> application" where
  "mainloop api t [] app = app"
| "mainloop api t (ev # evs) app = mainloop api t evs (fire api t ev app)"

section \<open>Reference descriptions and sample inputs\<close>

text \<open>
  What the properties below compare the program with, in the words of its
  description: a text occurs in another without regard to case; the basic document is
  the prefix declarations, one node shape for each class with one property block for
  each property, and a full stop.
\<close>

definition occurs_ci :: "string \<Rightarrow> string \<Rightarrow> bool" where
  "occurs_ci w s =
     list_ex (\<lambda>i. lower (take (length w) (drop i s)) = lower w) [0 ..< Suc (length s)]"

definition has_path :: "prop_dict \<Rightarrow> bool" where
  "has_path p = (map_of p ''path'' \<noteq> None)"

definition path_text :: "prop_dict \<Rightarrow> string" where
  "path_text p = (case map_of p ''path'' of Some v \<Rightarrow> format v | None \<Rightarrow> [])"

definition node_shape :: "string \<times> prop_dict list \<Rightarrow> string" where
  "node_shape item =
     shape_head (fst item) @ concat (map (\<lambda>p. property_block (path_text p)) (snd item))"

definition fallback_document :: "classes \<Rightarrow> string" where
  "fallback_document classes_and_properties =
     base_shacl_init @ concat (map node_shape classes_and_properties) @ ''.''"

text \<open>
  Sample libraries.  A parser that rejects every document, one that accepts every
  document, one that gives the document itself as the graph, and one that is
  interrupted from the keyboard; a validator that reports conformance, one that raises,
  and one that gives the graph as the report.
\<close>

definition parse_fails :: "string \<Rightarrow> exn + unit" where
  "parse_fails doc = Inl (Exn ''BadSyntax'' ''bad syntax'')"

definition parse_ok :: "string \<Rightarrow> exn + unit" where
  "parse_ok doc = Inr ()"

definition parse_echo :: "string \<Rightarrow> exn + string" where
  "parse_echo doc = Inr doc"

definition parse_interrupted :: "string \<Rightarrow> exn + unit" where
  "parse_interrupted doc = Inl (BaseExn ''KeyboardInterrupt'' [])"

definition validate_ok :: "unit \<Rightarrow> exn + bool \<times> string" where
  "validate_ok g = Inr (True, ''Validation Report'')"

definition validate_fails :: "unit \<Rightarrow> exn + bool \<times> string" where
  "validate_fails g = Inl (Exn ''ReportableRuntimeError'' ''no shapes'')"

definition validate_echo :: "string \<Rightarrow> exn + bool \<times> string" where
  "validate_echo g = Inr (True, g)"

text \<open>
  Sample dictionaries.  A property as the wizard writes it, with the key \<open>path\<close>; a
  dictionary of two classes; and a dictionary whose one property has no key \<open>path\<close>.
\<close>

definition property_of :: "string \<Rightarrow> prop_dict" where
  "property_of path =
     [(''path'', PStr path), (''datatype'', PStr ''xsd:string''),
      (''minCount'', PInt 1), (''maxCount'', PInt 1)]"

definition sample_classes :: classes where
  "sample_classes =
     [(''Person'', [property_of ''name'', property_of ''age'']), (''City'', [])]"

definition classes_without_path :: classes where
  "classes_without_path = [(''Person'', [[(''name'', PStr ''xsd:string'')]])]"

text \<open>The basic document of \<open>sample_classes\<close>, as the f-strings write it.\<close>

definition sample_document :: string where
  "sample_document = unlines
     [''@prefix ex: <http://example.org/> .'',
      ''@prefix sh: <http://www.w3.org/ns/shacl#> .'',
      ''@prefix schema: <https://schema.org/> .'',
      ''@prefix xsd: <http://www.w3.org/2001/XMLSchema#> .'',
      [],
      ''ex:Person'',
      ''    a sh:NodeShape ;'',
      ''    sh:targetClass schema:Person ;'',
      ''    sh:property ['',
      ''        sh:path schema:name ;'',
      ''        sh:datatype xsd:string ;'',
      ''        sh:minCount 1 ;'',
      ''        sh:maxCount 1 ;'',
      ''    ] ;'',
      ''    sh:property ['',
      ''        sh:path schema:age ;'',
      ''        sh:datatype xsd:string ;'',
      ''        sh:minCount 1 ;'',
      ''        sh:maxCount 1 ;'',
      ''    ] ;'',
      ''ex:City'',
      ''    a sh:NodeShape ;'',
      ''    sh:targetClass schema:City ;''] @ ''.''"

text \<open>
  Fenced code blocks, in the words of the description.  \<open>split_fence\<close> cuts a text at
  its first fence, into the text before the fence and the text behind it; a fence
  starts at position \<open>j\<close> of a text when \<open>fence_at\<close> holds; \<open>without_tag\<close> takes the tag
  \<open>turtle\<close> from the front of a text that starts with it.  The first fenced block of a
  text starts behind its first fence and the tag, and ends before the next fence; a
  text whose first fence is not followed by another has no fenced block.
\<close>

fun split_fence :: "string \<Rightarrow> (string \<times> string) option" where
  "split_fence [] = None"
| "split_fence (c # cs) =
     (if take 3 (c # cs) = fence then Some ([], drop 3 (c # cs))
      else map_option (\<lambda>(before, after). (c # before, after)) (split_fence cs))"

definition fence_at :: "string \<Rightarrow> nat \<Rightarrow> bool" where
  "fence_at s j = (take 3 (drop j s) = fence)"

definition without_tag :: "string \<Rightarrow> string" where
  "without_tag s = (if take 6 s = ''turtle'' then drop 6 s else s)"

definition first_fenced_block :: "string \<Rightarrow> string option" where
  "first_fenced_block text =
     (case split_fence text of
        None \<Rightarrow> None
      | Some (before, rest) \<Rightarrow> map_option fst (split_fence (without_tag rest)))"

text \<open>
  Sample replies: one with a block of two lines tagged \<open>turtle\<close> between two sentences,
  one with no fence, and one whose only fence is not closed.
\<close>

definition sample_reply :: string where
  "sample_reply = unlines
     [''Here is the document:'',
      fence @ ''turtle'',
      ''ex:PersonShape a sh:NodeShape ;'',
      ''    sh:targetClass schema:Person .'',
      fence,
      ''Tell me if you need changes.'']"

definition sample_block :: string where
  "sample_block =
     ''ex:PersonShape a sh:NodeShape ;'' @ [newline] @ ''    sh:targetClass schema:Person .''"

definition reply_without_fence :: string where
  "reply_without_fence = '' ex:PersonShape a sh:NodeShape . '' @ [newline]"

definition reply_unclosed :: string where
  "reply_unclosed = fence @ ''turtle'' @ [newline] @ ''ex:PersonShape a sh:NodeShape .''"

text \<open>
  The attempts of one call of \<open>ask\<close>, counted from 0.  \<open>attempt_history\<close> is the history
  at attempt \<open>j\<close>, the history before the call and the prompt \<open>j + 1\<close> times; an attempt
  has \<open>failed\<close> when the service raised an exception of class \<open>Exception\<close>;
  \<open>retries_trace\<close> is the trace of \<open>k\<close> failed attempts, each request followed by a sleep
  of five seconds; \<open>after_attempt\<close> is the client once the request of attempt \<open>k\<close> has
  been sent, \<open>k\<close> failed attempts before it, and \<open>retried\<close> the client after \<open>k\<close> failed
  attempts and their sleeps; \<open>is_create\<close> picks the requests out of a trace.
\<close>

definition attempt_history :: "client \<Rightarrow> string \<Rightarrow> nat \<Rightarrow> message list" where
  "attempt_history c prompt j = history c @ replicate (Suc j) (user_message prompt)"

definition failed :: "exn + string \<Rightarrow> bool" where
  "failed outcome = (case outcome of Inl (Exn cls m) \<Rightarrow> True | _ \<Rightarrow> False)"

definition retries_trace :: "string \<Rightarrow> client \<Rightarrow> string \<Rightarrow> nat \<Rightarrow> effect list" where
  "retries_trace model c prompt k =
     concat (map (\<lambda>j. [Create model (attempt_history c prompt j), Sleep 5]) [0 ..< k])"

definition after_attempt :: "client \<Rightarrow> string \<Rightarrow> string \<Rightarrow> nat \<Rightarrow> client" where
  "after_attempt c prompt model k =
     c\<lparr>history := attempt_history c prompt k,
       trace := trace c @ retries_trace model c prompt k
                @ [Create model (attempt_history c prompt k)]\<rparr>"

definition retried :: "client \<Rightarrow> string \<Rightarrow> string \<Rightarrow> nat \<Rightarrow> client" where
  "retried c prompt model k =
     c\<lparr>history := history c @ replicate k (user_message prompt),
       trace := trace c @ retries_trace model c prompt k\<rparr>"


text \<open>
  Sample services: one that is down, one that answers the third request of a new
  client, one that is interrupted from the keyboard.
\<close>

definition api_down :: api where
  "api_down model messages = Inl (Exn ''APIConnectionError'' ''Connection error.'')"

definition api_third :: api where
  "api_third model messages =
     (if length messages < 4 then Inl (Exn ''APIConnectionError'' ''Connection error.'')
      else Inr ''Person'')"

definition api_interrupted :: api where
  "api_interrupted model messages = Inl (BaseExn ''KeyboardInterrupt'' [])"



section \<open>Properties of the matcher\<close>

lemma ms_ahead_drop:
  "\<forall>st st'. st' \<in> set (ms r st) \<longrightarrow> (\<exists>k. ahead st' = drop k (ahead st))"
proof (induction r)
  case (Lit l)
  show ?case by (auto simp: advance_ahead)
next
  case (LitI l)
  show ?case by (auto simp: advance_ahead)
next
  case (Plus p)
  show ?case by (auto simp: advance_ahead)
next
  case (Star p)
  show ?case by (auto simp: advance_ahead)
next
  case (Lazy p)
  show ?case by (auto simp: advance_ahead)
next
  case (NotBehind p)
  show ?case by (auto split: list.splits intro: exI[of _ 0])
next
  case (Opt r)
  then show ?case by (auto intro: exI[of _ 0])
next
  case (Alt r1 r2)
  then show ?case by auto
next
  case (Grp r)
  then show ?case by (auto simp: capture_ahead)
next
  case (Then r1 r2)
  show ?case
  proof (intro allI impI)
    fix st st' assume "st' \<in> set (ms (Then r1 r2) st)"
    then obtain st1 where a: "st1 \<in> set (ms r1 st)" and b: "st' \<in> set (ms r2 st1)"
      by auto
    from Then.IH(1) a obtain k where k: "ahead st1 = drop k (ahead st)" by blast
    from Then.IH(2) b obtain j where j: "ahead st' = drop j (ahead st1)" by blast
    from k j have "ahead st' = drop (j + k) (ahead st)" by simp
    then show "\<exists>k. ahead st' = drop k (ahead st)" by blast
  qed
qed

lemma first_match_ahead:
  assumes "first_match r must b s = Some st'"
  shows "set (ahead st') \<subseteq> set s"
proof -
  from assms have "st' \<in> set (ms r \<lparr>behind = b, ahead = s, caps = []\<rparr>)"
    unfolding first_match_def find_Some_iff by (metis nth_mem)
  with ms_ahead_drop obtain k where "ahead st' = drop k s" by fastforce
  then show ?thesis by (simp add: set_drop_subset)
qed

text \<open>A substitution puts nothing into the text but what the replacement gives.\<close>

lemma re_iter_chars:
  "x \<in> set (concat (map (piece_text repl) (re_iter r must b s)))
   \<Longrightarrow> x \<in> set s \<or> (\<exists>m. x \<in> set (repl m))"
proof (induction r must b s rule: re_iter.induct)
  case (1 r must b s)
  show ?case
  proof (cases "first_match r must b s")
    case None
    show ?thesis
    proof (cases s)
      case Nil
      with None "1.prems" show ?thesis by (subst (asm) re_iter.simps) simp
    next
      case (Cons c cs)
      with None "1.prems" have
        "x = c \<or> x \<in> set (concat (map (piece_text repl) (re_iter r False (c # b) cs)))"
        by (subst (asm) re_iter.simps) (simp add: piece_text_def)
      with "1.IH"(1)[OF None Cons] Cons show ?thesis by auto
    qed
  next
    case (Some st')
    with "1.prems" have
      "x \<in> set (repl (take (length s - length (ahead st')) s)) \<or>
       x \<in> set (concat (map (piece_text repl)
              (re_iter r (length (ahead st') = length s) (behind st') (ahead st'))))"
      by (subst (asm) re_iter.simps) (simp add: piece_text_def)
    with "1.IH"(2)[OF Some] first_match_ahead[OF Some] show ?thesis by auto
  qed
qed

lemma re_sub_chars:
  "x \<in> set (re_sub r repl s) \<Longrightarrow> x \<in> set s \<or> (\<exists>m. x \<in> set (repl m))"
  using re_iter_chars[of x repl r False "[]" s] by (simp add: re_sub_def)

text \<open>\<open>[class]+\<close> replaced by nothing removes exactly the characters of the class.\<close>

lemma first_match_Plus:
  "first_match (Plus q) must b s =
     (if takeWhile q s = [] then None
      else Some (advance \<lparr>behind = b, ahead = s, caps = []\<rparr> (length (takeWhile q s))))"
proof (cases "takeWhile q s = []")
  case True
  then show ?thesis by (simp add: first_match_def run_length_def)
next
  case False
  define n where "n = length (takeWhile q s)"
  from False have n: "0 < n" "n \<le> length s"
    by (simp_all add: n_def length_takeWhile_le)
  then have "rev [1 ..< Suc n] = n # rev [1 ..< n]" by simp
  moreover from n have "length s - n < length s" by arith
  ultimately show ?thesis using n False
    by (simp add: first_match_def run_length_def n_def[symmetric] advance_ahead)
qed

lemma filter_dropWhile_skip:
  "filter (\<lambda>c. \<not> q c) (dropWhile q s) = filter (\<lambda>c. \<not> q c) s"
  by (induction s) simp_all

lemma re_iter_Plus:
  "concat (map (piece_text delete) (re_iter (Plus q) must b s)) = filter (\<lambda>c. \<not> q c) s"
proof (induction "Plus q" must b s rule: re_iter.induct)
  case (1 must b s)
  show ?case
  proof (cases "takeWhile q s = []")
    case True
    then have none: "first_match (Plus q) must b s = None" by (simp add: first_match_Plus)
    show ?thesis
    proof (cases s)
      case Nil
      with none show ?thesis by (subst re_iter.simps) simp
    next
      case (Cons c cs)
      with True have "\<not> q c" by (auto split: if_splits)
      with "1.hyps"(1)[OF none Cons] none Cons show ?thesis
        by (subst re_iter.simps) (simp add: piece_text_def)
    qed
  next
    case False
    define st' where
      "st' = advance \<lparr>behind = b, ahead = s, caps = []\<rparr> (length (takeWhile q s))"
    from False have some: "first_match (Plus q) must b s = Some st'"
      by (simp add: first_match_Plus st'_def)
    have a: "ahead st' = dropWhile q s"
      by (simp add: st'_def advance_ahead dropWhile_eq_drop)
    have "concat (map (piece_text delete) (re_iter (Plus q) must b s))
        = concat (map (piece_text delete)
            (re_iter (Plus q) (length (ahead st') = length s) (behind st') (ahead st')))"
      by (subst re_iter.simps) (simp add: some piece_text_def delete_def)
    also have "\<dots> = filter (\<lambda>c. \<not> q c) (ahead st')"
      by (rule "1.hyps"(2)[OF some])
    also have "\<dots> = filter (\<lambda>c. \<not> q c) s"
      by (simp only: a filter_dropWhile_skip)
    finally show ?thesis .
  qed
qed

lemma sub_non_turtle: "re_sub rx_non_turtle delete s = filter turtle_char s"
  using re_iter_Plus[of "\<lambda>c. \<not> turtle_char c" False "[]" s]
  by (simp add: re_sub_def rx_non_turtle_def)

lemma backtick_not_turtle: "\<not> turtle_char backtick"
  by (simp add: turtle_char_def backtick_def is_word_def is_space_def between_def)

text \<open>A pattern that starts with the fence matches nowhere in a text without backticks.\<close>

lemma fence_needs_backtick:
  assumes "take (length fence) s = fence"
  shows "backtick \<in> set s"
proof -
  have "backtick \<in> set (take (length fence) s)"
    unfolding assms by (simp add: fence_def)
  then show ?thesis by (rule in_set_takeD)
qed

lemma first_match_fence_None:
  "backtick \<notin> set s \<Longrightarrow> first_match (Then (Lit fence) r2) must b s = None"
  using fence_needs_backtick[of s] by (auto simp: first_match_def)

lemma re_iter_no_fence:
  "backtick \<notin> set s \<Longrightarrow> re_iter (Then (Lit fence) r2) must b s = map Skipped s"
proof (induction s arbitrary: must b)
  case Nil
  then show ?case by (subst re_iter.simps) (simp add: first_match_fence_None)
next
  case (Cons c cs)
  then show ?case by (subst re_iter.simps) (simp add: first_match_fence_None)
qed

lemma re_sub_no_fence:
  "backtick \<notin> set s \<Longrightarrow> re_sub (Then (Lit fence) r2) repl s = s"
  by (simp add: re_sub_def re_iter_no_fence comp_def piece_text_def)

lemma blank_lines_keeps_no_backtick:
  "backtick \<notin> set s \<Longrightarrow> backtick \<notin> set (re_sub rx_blank_lines to_newline s)"
  using re_sub_chars[of backtick rx_blank_lines to_newline s]
  by (auto simp: backtick_def newline_def to_newline_def)

section \<open>Properties of the cleaning\<close>

text \<open>The search for \<open>@prefix\<close> without regard to case finds the text exactly when it occurs.\<close>

lemma first_match_LitI:
  "first_match (LitI w) False b s =
     (if lower (take (length w) s) = lower w
      then Some (advance \<lparr>behind = b, ahead = s, caps = []\<rparr> (length w)) else None)"
  by (simp add: first_match_def)

lemma ball_upto_Suc:
  "(\<forall>i \<in> {0 .. Suc n}. P i) = (P 0 \<and> (\<forall>i \<in> {0 .. n}. P (Suc i)))"
proof
  assume a: "\<forall>i \<in> {0 .. Suc n}. P i"
  then show "P 0 \<and> (\<forall>i \<in> {0 .. n}. P (Suc i))" by simp
next
  assume a: "P 0 \<and> (\<forall>i \<in> {0 .. n}. P (Suc i))"
  show "\<forall>i \<in> {0 .. Suc n}. P i"
  proof
    fix i assume "i \<in> {0 .. Suc n}"
    with a show "P i" by (cases i) simp_all
  qed
qed

lemma search_from_LitI:
  "(search_from (LitI w) b s = None)
   = (\<forall>i \<in> {0 .. length s}. lower (take (length w) (drop i s)) \<noteq> lower w)"
proof (induction s arbitrary: b)
  case Nil
  show ?case by (simp add: first_match_LitI)
next
  case (Cons c cs)
  have "(\<forall>i \<in> {0 .. length (c # cs)}. lower (take (length w) (drop i (c # cs))) \<noteq> lower w)
      = (lower (take (length w) (c # cs)) \<noteq> lower w
         \<and> (\<forall>i \<in> {0 .. length cs}. lower (take (length w) (drop i cs)) \<noteq> lower w))"
    using ball_upto_Suc[of "length cs" "\<lambda>i. lower (take (length w) (drop i (c # cs))) \<noteq> lower w"]
    by simp
  with Cons.IH[of "c # b"] show ?case
    by (simp add: first_match_LitI del: take_Suc_Cons)
qed

lemma search_prefix: "(re_search rx_prefix s = None) = (\<not> occurs_ci ''@prefix'' s)"
  by (simp add: re_search_def rx_prefix_def search_from_LitI occurs_ci_def list_ex_iff
      atLeastLessThanSuc_atLeastAtMost del: upt_Suc)

lemma clean_steps:
  "validate_shacl_clean s
     = re_sub rx_prefix_line add_dot (strip (re_sub rx_fence delete
         (re_sub rx_fence_tagged delete (re_sub rx_blank_lines to_newline
           (re_sub rx_non_turtle delete s)))))"
  unfolding validate_shacl_clean_def Let_def ..

lemma clean_same: "auto_correct_shacl_clean s = validate_shacl_clean s"
  unfolding auto_correct_shacl_clean_def validate_shacl_clean_def ..

lemma validate_doc_eq:
  "validate_shacl_doc s
     = (if occurs_ci ''@prefix'' (validate_shacl_clean s) then validate_shacl_clean s
        else validate_prefixes @ validate_shacl_clean s)"
  unfolding validate_shacl_doc_def Let_def search_prefix by simp

lemma auto_correct_doc_eq:
  "auto_correct_shacl_doc s
     = (if occurs_ci ''@prefix'' (validate_shacl_clean s) then validate_shacl_clean s
        else auto_correct_prefixes @ validate_shacl_clean s)"
  unfolding auto_correct_shacl_doc_def Let_def search_prefix clean_same by simp

lemma six_prefixes: "length (re_findall (Lit ''@prefix'') validate_prefixes) = 6"
  by code_simp

lemma four_prefixes: "length (re_findall (Lit ''@prefix'') auto_correct_prefixes) = 4"
  by code_simp

text \<open>The cleaning on two sample documents.\<close>

lemma sample_clean_1: "validate_shacl_clean ''a, b'' = ''a b''"
  by code_simp

lemma sample_clean_2: "validate_shacl_clean ''@Prefix a, b'' = ''@Prefix a b''"
  by code_simp

lemma sample_clean_3: "validate_shacl_clean ''a $b'' = ''a b''"
  by code_simp

lemma sample_occurs_1: "\<not> occurs_ci ''@prefix'' ''a b''"
  by code_simp

lemma sample_occurs_2: "occurs_ci ''@prefix'' ''@Prefix a b''"
  by code_simp

section \<open>The fence removals after the first cleaning step\<close>

text \<open>
  Claim C8.  In the cleaning of \<open>validate_shacl\<close> and of \<open>auto_correct_shacl\<close> the first
  substitution removes every backtick.  So for every input the two substitutions that
  remove the markdown fences change nothing: neither applied to the result of the first
  substitution, nor where they stand in the program, behind the collapsing of blank
  lines.
\<close>

theorem fences_gone_after_whitelist:
  "backtick \<notin> set (re_sub rx_non_turtle delete s)
   \<and> re_sub rx_fence delete (re_sub rx_fence_tagged delete (re_sub rx_non_turtle delete s))
      = re_sub rx_non_turtle delete s
   \<and> re_sub rx_fence delete (re_sub rx_fence_tagged delete
        (re_sub rx_blank_lines to_newline (re_sub rx_non_turtle delete s)))
      = re_sub rx_blank_lines to_newline (re_sub rx_non_turtle delete s)"
proof -
  have a: "backtick \<notin> set (re_sub rx_non_turtle delete s)"
    by (simp add: sub_non_turtle backtick_not_turtle)
  from a have b: "backtick \<notin> set (re_sub rx_blank_lines to_newline
      (re_sub rx_non_turtle delete s))"
    by (rule blank_lines_keeps_no_backtick)
  from a b show ?thesis
    by (simp add: rx_fence_def rx_fence_tagged_def re_sub_no_fence)
qed

theorem fences_gone_after_whitelist_witness:
  "re_sub rx_fence delete (re_sub rx_fence_tagged delete
     (re_sub rx_non_turtle delete (fence @ ''ttl a b'' @ fence))) = ''ttl a b''"
proof -
  have "re_sub rx_non_turtle delete (fence @ ''ttl a b'' @ fence) = ''ttl a b''"
    by (simp add: sub_non_turtle fence_def backtick_def turtle_char_def is_word_def
        is_space_def between_def)
  with fences_gone_after_whitelist[of "fence @ ''ttl a b'' @ fence"] show ?thesis
    by simp
qed

section \<open>The two functions clean alike\<close>

text \<open>
  Claim C6.  \<open>validate_shacl\<close> and \<open>auto_correct_shacl\<close> apply the same six cleaning
  steps in the same order (the substitution of the characters outside the class, the
  collapsing of blank lines, the two fence removals, \<open>strip\<close>, the substitution on
  \<open>@prefix\<close> lines), so they agree on every input up to and including the last step.
  Each then puts its default block of prefix declarations in front exactly when
  \<open>@prefix\<close> does not occur in the cleaned document, without regard to case; the block
  has six declarations in \<open>validate_shacl\<close> and four in \<open>auto_correct_shacl\<close>.
\<close>

theorem cleaning_agrees:
  "validate_shacl_clean s
     = re_sub rx_prefix_line add_dot (strip (re_sub rx_fence delete
         (re_sub rx_fence_tagged delete (re_sub rx_blank_lines to_newline
           (re_sub rx_non_turtle delete s)))))
   \<and> auto_correct_shacl_clean s = validate_shacl_clean s
   \<and> validate_shacl_doc s
     = (if occurs_ci ''@prefix'' (validate_shacl_clean s) then validate_shacl_clean s
        else validate_prefixes @ validate_shacl_clean s)
   \<and> auto_correct_shacl_doc s
     = (if occurs_ci ''@prefix'' (validate_shacl_clean s) then validate_shacl_clean s
        else auto_correct_prefixes @ validate_shacl_clean s)
   \<and> length (re_findall (Lit ''@prefix'') validate_prefixes) = 6
   \<and> length (re_findall (Lit ''@prefix'') auto_correct_prefixes) = 4"
  using clean_steps clean_same validate_doc_eq auto_correct_doc_eq six_prefixes four_prefixes
  by (intro conjI)

theorem cleaning_agrees_witness:
  "auto_correct_shacl_clean ''a, b'' = ''a b''
   \<and> validate_shacl_doc ''a, b'' = validate_prefixes @ ''a b''
   \<and> auto_correct_shacl_doc ''a, b'' = auto_correct_prefixes @ ''a b''
   \<and> validate_shacl_doc ''@Prefix a, b'' = ''@Prefix a b''
   \<and> auto_correct_shacl_doc ''@Prefix a, b'' = ''@Prefix a b''"
proof -
  note t1 = cleaning_agrees[of "''a, b''", THEN conjunct2]
  note t2 = cleaning_agrees[of "''@Prefix a, b''", THEN conjunct2]
  have a: "auto_correct_shacl_clean ''a, b'' = ''a b''"
    using t1[THEN conjunct1] by (simp only: sample_clean_1)
  have b: "validate_shacl_doc ''a, b'' = validate_prefixes @ ''a b''"
    using t1[THEN conjunct2, THEN conjunct1]
    by (simp only: sample_clean_1 sample_occurs_1 if_False)
  have c: "auto_correct_shacl_doc ''a, b'' = auto_correct_prefixes @ ''a b''"
    using t1[THEN conjunct2, THEN conjunct2, THEN conjunct1]
    by (simp only: sample_clean_1 sample_occurs_1 if_False)
  have d: "validate_shacl_doc ''@Prefix a, b'' = ''@Prefix a b''"
    using t2[THEN conjunct2, THEN conjunct1]
    by (simp only: sample_clean_2 sample_occurs_2 if_True)
  have e: "auto_correct_shacl_doc ''@Prefix a, b'' = ''@Prefix a b''"
    using t2[THEN conjunct2, THEN conjunct2, THEN conjunct1]
    by (simp only: sample_clean_2 sample_occurs_2 if_True)
  from a b c d e show ?thesis by (intro conjI)
qed

section \<open>What \<open>validate_shacl\<close> returns and what it raises\<close>

text \<open>The handler of the \<open>try\<close> statement of \<open>validate_shacl\<close>.\<close>

lemma try_except_cases:
  "try_except body (\<lambda>e. Inr (False, message e))
     = (case body of
          Inl (Exn c m) \<Rightarrow> Inr (False, m)
        | Inl (BaseExn c m) \<Rightarrow> Inl (BaseExn c m)
        | Inr v \<Rightarrow> Inr v)"
  by (simp add: try_except_def message_def split: sum.splits exn.splits)

text \<open>
  Claim C2, amended.  For every input string \<open>validate_shacl\<close> applies the six cleaning
  steps in their order, puts the block of six prefix declarations in front when
  \<open>@prefix\<close> does not occur in the cleaned text (without regard to case), hands that
  document to the parser and the graph to the validator, and returns the pair of the
  conformance flag and the report text.  Where the parser or the validator raises an
  exception of class \<open>Exception\<close>, it returns \<open>False\<close> and the message of the exception.
  An exception outside the class \<open>Exception\<close> (\<open>KeyboardInterrupt\<close>, \<open>SystemExit\<close>) is not
  caught: \<open>validate_shacl\<close> raises it.  So \<open>validate_shacl\<close> returns a pair for every
  input string exactly as far as the parser and the validator raise nothing outside the
  class \<open>Exception\<close>.
\<close>

theorem validate_shacl_result:
  "validate_shacl parse validate s =
     (let cleaned = re_sub rx_prefix_line add_dot (strip (re_sub rx_fence delete
                      (re_sub rx_fence_tagged delete (re_sub rx_blank_lines to_newline
                        (re_sub rx_non_turtle delete s)))));
          doc = (if occurs_ci ''@prefix'' cleaned then cleaned
                 else validate_prefixes @ cleaned)
      in case parse doc of
           Inl (Exn c m) \<Rightarrow> Inr (False, m)
         | Inl (BaseExn c m) \<Rightarrow> Inl (BaseExn c m)
         | Inr g \<Rightarrow>
             (case validate g of
                Inl (Exn c m) \<Rightarrow> Inr (False, m)
              | Inl (BaseExn c m) \<Rightarrow> Inl (BaseExn c m)
              | Inr (conforms, results_text) \<Rightarrow> Inr (conforms, results_text)))
   \<and> ((\<forall>doc c m. parse doc \<noteq> Inl (BaseExn c m))
        \<and> (\<forall>g c m. validate g \<noteq> Inl (BaseExn c m))
      \<longrightarrow> (\<exists>conforms results_text.
             validate_shacl parse validate s = Inr (conforms, results_text)))"
proof -
  let ?doc = "validate_shacl_doc s"
  have run: "validate_shacl parse validate s =
      (case parse ?doc of
         Inl (Exn c m) \<Rightarrow> Inr (False, m)
       | Inl (BaseExn c m) \<Rightarrow> Inl (BaseExn c m)
       | Inr g \<Rightarrow>
           (case validate g of
              Inl (Exn c m) \<Rightarrow> Inr (False, m)
            | Inl (BaseExn c m) \<Rightarrow> Inl (BaseExn c m)
            | Inr (conforms, results_text) \<Rightarrow> Inr (conforms, results_text)))"
    unfolding validate_shacl_def Let_def try_except_cases
    by (simp add: and_then_def split: sum.splits exn.splits prod.splits)
  have doc: "?doc =
      (let cleaned = re_sub rx_prefix_line add_dot (strip (re_sub rx_fence delete
                      (re_sub rx_fence_tagged delete (re_sub rx_blank_lines to_newline
                        (re_sub rx_non_turtle delete s)))))
       in if occurs_ci ''@prefix'' cleaned then cleaned else validate_prefixes @ cleaned)"
    unfolding validate_doc_eq clean_steps Let_def ..
  have first: "validate_shacl parse validate s =
     (let cleaned = re_sub rx_prefix_line add_dot (strip (re_sub rx_fence delete
                      (re_sub rx_fence_tagged delete (re_sub rx_blank_lines to_newline
                        (re_sub rx_non_turtle delete s)))));
          doc = (if occurs_ci ''@prefix'' cleaned then cleaned
                 else validate_prefixes @ cleaned)
      in case parse doc of
           Inl (Exn c m) \<Rightarrow> Inr (False, m)
         | Inl (BaseExn c m) \<Rightarrow> Inl (BaseExn c m)
         | Inr g \<Rightarrow>
             (case validate g of
                Inl (Exn c m) \<Rightarrow> Inr (False, m)
              | Inl (BaseExn c m) \<Rightarrow> Inl (BaseExn c m)
              | Inr (conforms, results_text) \<Rightarrow> Inr (conforms, results_text)))"
    unfolding run doc Let_def ..
  have second: "\<exists>conforms results_text.
      validate_shacl parse validate s = Inr (conforms, results_text)"
    if p: "\<forall>doc c m. parse doc \<noteq> Inl (BaseExn c m)"
      and v: "\<forall>g c m. validate g \<noteq> Inl (BaseExn c m)"
  proof (cases "parse ?doc")
    case (Inl e)
    with p obtain c m where "e = Exn c m" by (cases e) auto
    with Inl show ?thesis unfolding run by auto
  next
    case (Inr g)
    show ?thesis
    proof (cases "validate g")
      case (Inl e)
      with v obtain c m where "e = Exn c m" by (cases e) auto
      with Inl \<open>parse ?doc = Inr g\<close> show ?thesis unfolding run by auto
    next
      case r: (Inr r)
      with Inr show ?thesis unfolding run by (cases r) simp
    qed
  qed
  from first second show ?thesis by blast
qed

theorem validate_shacl_result_witness:
  "validate_shacl parse_echo validate_echo ''a $b'' = Inr (True, validate_prefixes @ ''a b'')
   \<and> validate_shacl parse_echo validate_echo ''@Prefix a, b'' = Inr (True, ''@Prefix a b'')
   \<and> validate_shacl parse_fails validate_ok ''a, b'' = Inr (False, ''bad syntax'')
   \<and> validate_shacl parse_ok validate_fails ''a, b'' = Inr (False, ''no shapes'')
   \<and> (\<exists>conforms results_text.
         validate_shacl parse_echo validate_echo ''a $b'' = Inr (conforms, results_text))"
proof -
  have a: "validate_shacl parse_echo validate_echo ''a $b''
             = Inr (True, validate_prefixes @ ''a b'')"
    using validate_shacl_result[of parse_echo validate_echo "''a $b''", THEN conjunct1]
    unfolding clean_steps[symmetric] sample_clean_3 Let_def
    by (simp only: sample_occurs_1 if_False parse_echo_def validate_echo_def
        sum.case prod.case)
  have b: "validate_shacl parse_echo validate_echo ''@Prefix a, b''
             = Inr (True, ''@Prefix a b'')"
    using validate_shacl_result[of parse_echo validate_echo "''@Prefix a, b''", THEN conjunct1]
    unfolding clean_steps[symmetric] sample_clean_2 Let_def
    by (simp only: sample_occurs_2 if_True parse_echo_def validate_echo_def
        sum.case prod.case)
  have c: "validate_shacl parse_fails validate_ok ''a, b'' = Inr (False, ''bad syntax'')"
    using validate_shacl_result[of parse_fails validate_ok "''a, b''", THEN conjunct1]
    unfolding Let_def by (simp only: parse_fails_def sum.case exn.case)
  have d: "validate_shacl parse_ok validate_fails ''a, b'' = Inr (False, ''no shapes'')"
    using validate_shacl_result[of parse_ok validate_fails "''a, b''", THEN conjunct1]
    unfolding Let_def by (simp only: parse_ok_def validate_fails_def sum.case exn.case)
  have e: "\<exists>conforms results_text.
      validate_shacl parse_echo validate_echo ''a $b'' = Inr (conforms, results_text)"
    using validate_shacl_result[of parse_echo validate_echo "''a $b''", THEN conjunct2]
    by (simp add: parse_echo_def validate_echo_def)
  from a b c d e show ?thesis by (intro conjI)
qed

text \<open>
  A parser interrupted from the keyboard: the \<open>except\<close> clause names \<open>Exception\<close>, so the
  interrupt passes through it and \<open>validate_shacl\<close> raises.
\<close>

theorem validate_shacl_raises:
  "validate_shacl parse_interrupted validate_ok ''a, b''
     = Inl (BaseExn ''KeyboardInterrupt'' [])"
  by (simp add: validate_shacl_def try_except_def and_then_def parse_interrupted_def)

section \<open>What \<open>auto_correct_shacl\<close> returns and what it raises\<close>

text \<open>
  The two loops of the handler.  They build the text of the shapes when every property
  has the key \<open>path\<close>, and raise \<open>KeyError\<close> at the first property without it.
\<close>

lemma add_properties_ok:
  "list_all has_path properties \<Longrightarrow>
   add_properties base_shacl properties
     = Inr (base_shacl @ concat (map (\<lambda>p. property_block (path_text p)) properties))"
  by (induction properties arbitrary: base_shacl)
     (auto simp: and_then_def getitem_def path_text_def has_path_def)

lemma add_properties_KeyError:
  "\<not> list_all has_path properties \<Longrightarrow>
   add_properties base_shacl properties
     = Inl (Exn ''KeyError'' ([CHR 0x27] @ ''path'' @ [CHR 0x27]))"
  by (induction properties arbitrary: base_shacl)
     (auto simp: and_then_def getitem_def has_path_def split: option.splits)

lemma add_shapes_ok:
  "list_all (\<lambda>item. list_all has_path (snd item)) items \<Longrightarrow>
   add_shapes base_shacl items = Inr (base_shacl @ concat (map node_shape items))"
  by (induction items arbitrary: base_shacl)
     (auto simp: and_then_def add_properties_ok node_shape_def)

lemma add_shapes_KeyError:
  "\<not> list_all (\<lambda>item. list_all has_path (snd item)) items \<Longrightarrow>
   add_shapes base_shacl items
     = Inl (Exn ''KeyError'' ([CHR 0x27] @ ''path'' @ [CHR 0x27]))"
proof (induction items arbitrary: base_shacl)
  case Nil
  then show ?case by simp
next
  case (Cons item items)
  obtain class_name properties where item: "item = (class_name, properties)"
    by (cases item)
  show ?case
  proof (cases "list_all has_path properties")
    case True
    with Cons.prems item
    have "\<not> list_all (\<lambda>item. list_all has_path (snd item)) items" by simp
    from Cons.IH[OF this] True item show ?thesis
      by (simp add: and_then_def add_properties_ok)
  next
    case False
    then show ?thesis
      by (simp add: item and_then_def add_properties_KeyError)
  qed
qed

lemma basic_shacl_cases:
  "basic_shacl classes_and_properties =
     (if list_all (\<lambda>item. list_all has_path (snd item)) classes_and_properties
      then Inr (fallback_document classes_and_properties)
      else Inl (Exn ''KeyError'' ([CHR 0x27] @ ''path'' @ [CHR 0x27])))"
  by (simp add: basic_shacl_def fallback_document_def and_then_def
      add_shapes_ok add_shapes_KeyError)

lemma base_is_block: "base_shacl_init = auto_correct_prefixes"
  by (simp add: base_shacl_init_def auto_correct_prefixes_def unlines_def)

lemma auto_correct_run:
  "auto_correct_shacl parse s classes_and_properties =
     (case parse (auto_correct_shacl_doc s) of
        Inr g \<Rightarrow> Inr (auto_correct_shacl_doc s)
      | Inl (BaseExn c m) \<Rightarrow> Inl (BaseExn c m)
      | Inl (Exn c m) \<Rightarrow> basic_shacl classes_and_properties)"
  by (simp add: auto_correct_shacl_def try_except_def and_then_def
      split: sum.splits exn.splits)

text \<open>The basic document of the sample dictionary, and the sample dictionaries.\<close>

lemma sample_has_path: "list_all (\<lambda>item. list_all has_path (snd item)) sample_classes"
  by (simp add: sample_classes_def property_of_def has_path_def)

lemma sample_fallback: "fallback_document sample_classes = sample_document"
  by (simp add: fallback_document_def base_shacl_init_def node_shape_def shape_head_def
      property_block_def path_text_def format_def sample_classes_def property_of_def
      unlines_def sample_document_def)

text \<open>
  Claim C3, amended.  For every input string and every dictionary
  \<open>classes_and_properties\<close>, \<open>auto_correct_shacl\<close> applies the six cleaning steps and puts
  the block of four prefix declarations in front when \<open>@prefix\<close> does not occur in the
  cleaned text (without regard to case).  If the parser accepts that document,
  \<open>auto_correct_shacl\<close> returns it.  If the parser raises an exception of class
  \<open>Exception\<close> and every property of every class has the key \<open>path\<close>, it returns the
  basic document: the four prefix declarations and an empty line, then for each entry
  of the dictionary in order one node shape targeting the class with one property
  block for each property, using the value at \<open>path\<close>, then a full stop.  If the parser
  raises an exception of class \<open>Exception\<close> and some property has no key \<open>path\<close>,
  \<open>auto_correct_shacl\<close> raises \<open>KeyError\<close>: the loops run inside the handler.  If the parser
  raises an exception outside the class \<open>Exception\<close>, \<open>auto_correct_shacl\<close> raises it.
\<close>

theorem auto_correct_shacl_result:
  "auto_correct_shacl parse s classes_and_properties =
     (let cleaned = re_sub rx_prefix_line add_dot (strip (re_sub rx_fence delete
                      (re_sub rx_fence_tagged delete (re_sub rx_blank_lines to_newline
                        (re_sub rx_non_turtle delete s)))));
          doc = (if occurs_ci ''@prefix'' cleaned then cleaned
                 else auto_correct_prefixes @ cleaned)
      in case parse doc of
           Inr g \<Rightarrow> Inr doc
         | Inl (BaseExn c m) \<Rightarrow> Inl (BaseExn c m)
         | Inl (Exn c m) \<Rightarrow>
             (if list_all (\<lambda>item. list_all has_path (snd item)) classes_and_properties
              then Inr (auto_correct_prefixes
                        @ concat (map node_shape classes_and_properties) @ ''.'')
              else Inl (Exn ''KeyError'' ([CHR 0x27] @ ''path'' @ [CHR 0x27]))))
   \<and> length (re_findall (Lit ''@prefix'') auto_correct_prefixes) = 4"
proof -
  have doc: "auto_correct_shacl_doc s =
      (let cleaned = re_sub rx_prefix_line add_dot (strip (re_sub rx_fence delete
                      (re_sub rx_fence_tagged delete (re_sub rx_blank_lines to_newline
                        (re_sub rx_non_turtle delete s)))))
       in if occurs_ci ''@prefix'' cleaned then cleaned
          else auto_correct_prefixes @ cleaned)"
    unfolding auto_correct_doc_eq clean_steps Let_def ..
  have fb: "fallback_document classes_and_properties
      = auto_correct_prefixes @ concat (map node_shape classes_and_properties) @ ''.''"
    unfolding fallback_document_def base_is_block ..
  have "auto_correct_shacl parse s classes_and_properties =
     (let cleaned = re_sub rx_prefix_line add_dot (strip (re_sub rx_fence delete
                      (re_sub rx_fence_tagged delete (re_sub rx_blank_lines to_newline
                        (re_sub rx_non_turtle delete s)))));
          doc = (if occurs_ci ''@prefix'' cleaned then cleaned
                 else auto_correct_prefixes @ cleaned)
      in case parse doc of
           Inr g \<Rightarrow> Inr doc
         | Inl (BaseExn c m) \<Rightarrow> Inl (BaseExn c m)
         | Inl (Exn c m) \<Rightarrow>
             (if list_all (\<lambda>item. list_all has_path (snd item)) classes_and_properties
              then Inr (auto_correct_prefixes
                        @ concat (map node_shape classes_and_properties) @ ''.'')
              else Inl (Exn ''KeyError'' ([CHR 0x27] @ ''path'' @ [CHR 0x27]))))"
    unfolding auto_correct_run basic_shacl_cases fb doc Let_def ..
  with four_prefixes show ?thesis by (intro conjI)
qed

theorem auto_correct_shacl_result_witness:
  "auto_correct_shacl parse_echo ''a $b'' sample_classes
     = Inr (auto_correct_prefixes @ ''a b'')
   \<and> auto_correct_shacl parse_echo ''@Prefix a, b'' sample_classes = Inr ''@Prefix a b''
   \<and> auto_correct_shacl parse_fails ''a $b'' sample_classes = Inr sample_document"
proof -
  have a: "auto_correct_shacl parse_echo ''a $b'' sample_classes
             = Inr (auto_correct_prefixes @ ''a b'')"
    using auto_correct_shacl_result[of parse_echo "''a $b''" sample_classes, THEN conjunct1]
    unfolding clean_steps[symmetric] sample_clean_3 Let_def
    by (simp only: sample_occurs_1 if_False parse_echo_def sum.case)
  have b: "auto_correct_shacl parse_echo ''@Prefix a, b'' sample_classes
             = Inr ''@Prefix a b''"
    using auto_correct_shacl_result[of parse_echo "''@Prefix a, b''" sample_classes,
        THEN conjunct1]
    unfolding clean_steps[symmetric] sample_clean_2 Let_def
    by (simp only: sample_occurs_2 if_True parse_echo_def sum.case)
  have c: "auto_correct_shacl parse_fails ''a $b'' sample_classes = Inr sample_document"
    using auto_correct_shacl_result[of parse_fails "''a $b''" sample_classes, THEN conjunct1]
    unfolding Let_def sample_fallback[symmetric] fallback_document_def base_is_block
    by (simp only: parse_fails_def sum.case exn.case sample_has_path if_True)
  from a b c show ?thesis by (intro conjI)
qed

text \<open>
  The parser rejects the document and the one property of the dictionary has no key
  \<open>path\<close>: the handler raises \<open>KeyError\<close>, and nothing catches it.
\<close>

theorem auto_correct_shacl_raises:
  "auto_correct_shacl parse_fails ''a, b'' classes_without_path
     = Inl (Exn ''KeyError'' ([CHR 0x27] @ ''path'' @ [CHR 0x27]))"
  by (simp add: auto_correct_shacl_def try_except_def and_then_def parse_fails_def
      basic_shacl_def classes_without_path_def getitem_def)

section \<open>\<open>extract_shacl_code\<close> gives the first fenced block\<close>

text \<open>
  Where the fences of a text are, and what \<open>split_fence\<close> says about them.
\<close>

lemma fence_at_0: "fence_at s 0 = (take 3 s = fence)"
  by (simp add: fence_at_def)

lemma fence_at_Suc: "fence_at (c # cs) (Suc j) = fence_at cs j"
  by (simp add: fence_at_def)

lemma fence_nonempty: "fence \<noteq> []"
  by (simp add: fence_def)

lemma split_fence_None: "(split_fence s = None) = (\<forall>j. \<not> fence_at s j)"
proof (induction s)
  case Nil
  show ?case by (simp add: fence_at_def fence_def)
next
  case (Cons c cs)
  show ?case
  proof
    assume a: "split_fence (c # cs) = None"
    then have n0: "take 3 (c # cs) \<noteq> fence" and "split_fence cs = None"
      by (auto split: if_splits)
    with Cons have r: "\<forall>j. \<not> fence_at cs j" by simp
    show "\<forall>j. \<not> fence_at (c # cs) j"
    proof
      fix j show "\<not> fence_at (c # cs) j"
        using n0 r by (cases j) (auto simp: fence_at_def)
    qed
  next
    assume a: "\<forall>j. \<not> fence_at (c # cs) j"
    then have "\<not> fence_at (c # cs) 0" by blast
    then have n0: "take 3 (c # cs) \<noteq> fence" by (simp add: fence_at_def)
    have "\<forall>j. \<not> fence_at cs j"
    proof
      fix j from a have "\<not> fence_at (c # cs) (Suc j)" by blast
      then show "\<not> fence_at cs j" by (simp add: fence_at_def)
    qed
    with Cons have "split_fence cs = None" by simp
    with n0 show "split_fence (c # cs) = None" by simp
  qed
qed

lemma split_fence_Some:
  "split_fence s = Some (before, rest) \<Longrightarrow>
   s = before @ fence @ rest \<and> (\<forall>j < length before. \<not> fence_at s j)"
proof (induction s arbitrary: before)
  case Nil
  then show ?case by simp
next
  case (Cons c cs)
  show ?case
  proof (cases "take 3 (c # cs) = fence")
    case True
    with Cons.prems have b: "before = []" and r: "rest = drop 3 (c # cs)" by auto
    from True append_take_drop_id[of 3 "c # cs"]
    have "c # cs = fence @ drop 3 (c # cs)" by metis
    with b r show ?thesis by simp
  next
    case False
    with Cons.prems obtain b' where s: "split_fence cs = Some (b', rest)"
      and b: "before = c # b'" by (auto split: option.splits prod.splits)
    from Cons.IH[OF s] have e: "cs = b' @ fence @ rest"
      and n: "\<forall>j < length b'. \<not> fence_at cs j" by auto
    have "\<forall>j < length before. \<not> fence_at (c # cs) j"
    proof (intro allI impI)
      fix j assume "j < length before"
      with b n False show "\<not> fence_at (c # cs) j"
        by (cases j) (auto simp: fence_at_def)
    qed
    with e b show ?thesis by simp
  qed
qed


lemma fence_at_drop: "fence_at (drop k s) j = fence_at s (k + j)"
  by (simp add: fence_at_def add.commute)

lemma split_fence_drop: "split_fence s = None \<Longrightarrow> split_fence (drop k s) = None"
  by (simp add: split_fence_None fence_at_drop)

lemma fence_backticks: "set fence = {backtick}"
  by (simp add: fence_def)

lemma split_fence_prepend_None:
  "backtick \<notin> set pre \<Longrightarrow> split_fence s = None \<Longrightarrow> split_fence (pre @ s) = None"
proof (induction pre)
  case Nil
  then show ?case by simp
next
  case (Cons c pre)
  then have "c \<noteq> backtick" by auto
  then have "take 3 (c # pre @ s) \<noteq> fence" by (auto simp: fence_def)
  with Cons show ?case by simp
qed

lemma split_fence_prepend_Some:
  "backtick \<notin> set pre \<Longrightarrow> split_fence (pre @ s) = Some (c, a) \<Longrightarrow>
   \<exists>c'. split_fence s = Some (c', a) \<and> c = pre @ c'"
proof (induction pre arbitrary: c)
  case Nil
  then show ?case by simp
next
  case (Cons x pre)
  then have "x \<noteq> backtick" by auto
  then have n: "take 3 (x # pre @ s) \<noteq> fence" by (auto simp: fence_def)
  with Cons.prems(2) obtain c0 where s: "split_fence (pre @ s) = Some (c0, a)"
    and c: "c = x # c0" by (auto split: option.splits prod.splits)
  from Cons.IH[OF _ s] Cons.prems(1) obtain c' where "split_fence s = Some (c', a)"
    and "c0 = pre @ c'" by auto
  with c show ?case by simp
qed

lemma space_not_backtick: "is_space c \<Longrightarrow> c \<noteq> backtick"
  by (auto simp: is_space_def between_def backtick_def)

lemma strip_spaces: "\<forall>c \<in> set ws. is_space c \<Longrightarrow> strip (ws @ s) = strip s"
  by (simp add: strip_def lstrip_def dropWhile_append2)

lemma first_match_hd:
  "first_match r False b s
     = (case ms r \<lparr>behind = b, ahead = s, caps = []\<rparr> of [] \<Rightarrow> None | st' # _ \<Rightarrow> Some st')"
  by (simp add: first_match_def split: list.splits)

lemma concat_map_if:
  "concat (map (\<lambda>j. if P j then [f j] else []) js) = map f (filter P js)"
  by (induction js) auto

lemma ms_contents:
  "ms (Then (Grp (Lazy any_char)) (Lit fence)) st
     = map (\<lambda>j. advance (capture st (advance st j)) 3)
         (filter (fence_at (ahead st)) [0 ..< Suc (length (ahead st))])"
proof -
  have n: "run_length any_char st = length (ahead st)"
    by (simp add: run_length_def takeWhile_eq_all_conv[THEN iffD2] any_char_def)
  have l: "length fence = 3" by (simp add: fence_def)
  have "ms (Then (Grp (Lazy any_char)) (Lit fence)) st
      = concat (map (\<lambda>j. if fence_at (ahead st) j
                           then [advance (capture st (advance st j)) 3] else [])
                 [0 ..< Suc (length (ahead st))])"
    by (simp add: n l map_concat comp_def capture_ahead advance_ahead fence_at_def
        del: upt_Suc cong: if_cong)
  then show ?thesis by (simp only: concat_map_if)
qed

lemma caps_contents:
  "j \<le> length (ahead st) \<Longrightarrow>
   caps (advance (capture st (advance st j)) 3) = caps st @ [take j (ahead st)]"
  by (simp add: advance_def capture_def)

lemma ms_contents_None:
  "split_fence (ahead st) = None \<Longrightarrow> ms (Then (Grp (Lazy any_char)) (Lit fence)) st = []"
  unfolding ms_contents by (simp add: split_fence_None del: upt_Suc)

lemma ms_contents_Some:
  assumes "split_fence (ahead st) = Some (c, a)"
  shows "\<exists>st' tl. ms (Then (Grp (Lazy any_char)) (Lit fence)) st = st' # tl
           \<and> caps st' = caps st @ [c]"
proof -
  from split_fence_Some[OF assms] have e: "ahead st = c @ fence @ a"
    and n: "\<forall>j < length c. \<not> fence_at (ahead st) j" by auto
  from e have at: "fence_at (ahead st) (length c)"
    by (simp add: fence_at_def fence_def)
  from e have le: "length c < Suc (length (ahead st))" by simp
  then have "[0 ..< Suc (length (ahead st))]
      = [0 ..< length c] @ length c # [Suc (length c) ..< Suc (length (ahead st))]"
    by (metis le0 upt_add_eq_append upt_conv_Cons le_add_diff_inverse less_imp_le_nat)
  then have "filter (fence_at (ahead st)) [0 ..< Suc (length (ahead st))]
      = length c # filter (fence_at (ahead st)) [Suc (length c) ..< Suc (length (ahead st))]"
    using n at by (simp del: upt_Suc)
  moreover have "caps (advance (capture st (advance st (length c))) 3) = caps st @ [c]"
    using e by (simp add: caps_contents)
  ultimately show ?thesis unfolding ms_contents by simp
qed


lemma caps_advance: "caps (advance st k) = caps st"
  by (simp add: advance_def)

lemma ms_Then_Lit:
  "ms (Then (Lit l) r) st
     = (if take (length l) (ahead st) = l then ms r (advance st (length l)) else [])"
  by simp

lemma ms_Then_Opt_Lit:
  "ms (Then (Opt (Lit l)) r) st
     = (if take (length l) (ahead st) = l then ms r (advance st (length l)) else [])
       @ ms r st"
  by simp

lemma ms_Then_Star:
  "ms (Then (Star p) r) st
     = concat (map (\<lambda>k. ms r (advance st k)) (rev [0 ..< Suc (run_length p st)]))"
  by (simp add: comp_def del: upt_Suc)

lemma ms_body:
  "ms (Then (Star is_space) (Then (Grp (Lazy any_char)) (Lit fence))) st
     = concat (map (\<lambda>k. ms (Then (Grp (Lazy any_char)) (Lit fence)) (advance st k))
         (rev [0 ..< Suc (run_length is_space st)]))"
  by (rule ms_Then_Star)

lemma ms_body_None:
  assumes "split_fence (ahead st) = None"
  shows "ms (Then (Star is_space) (Then (Grp (Lazy any_char)) (Lit fence))) st = []"
proof -
  have "ms (Then (Grp (Lazy any_char)) (Lit fence)) (advance st k) = []" for k
    by (rule ms_contents_None) (simp add: advance_ahead split_fence_drop[OF assms])
  then show ?thesis unfolding ms_body by (simp del: ms.simps upt_Suc)
qed

lemma ms_body_Some:
  assumes "split_fence (dropWhile is_space (ahead st)) = Some (c, a)"
  shows "\<exists>st' tl. ms (Then (Star is_space) (Then (Grp (Lazy any_char)) (Lit fence))) st
                    = st' # tl \<and> caps st' = caps st @ [c]"
proof -
  let ?n = "run_length is_space st"
  have "ahead (advance st ?n) = dropWhile is_space (ahead st)"
    by (simp add: advance_ahead run_length_def dropWhile_eq_drop)
  with assms have "split_fence (ahead (advance st ?n)) = Some (c, a)" by simp
  from ms_contents_Some[OF this] obtain st' tl
    where m: "ms (Then (Grp (Lazy any_char)) (Lit fence)) (advance st ?n) = st' # tl"
      and c: "caps st' = caps (advance st ?n) @ [c]" by blast
  have "rev [0 ..< Suc ?n] = ?n # rev [0 ..< ?n]" by simp
  note rev_upt = this
  with m have "ms (Then (Star is_space) (Then (Grp (Lazy any_char)) (Lit fence))) st
      = st' # tl @ concat (map (\<lambda>k. ms (Then (Grp (Lazy any_char)) (Lit fence))
                                       (advance st k)) (rev [0 ..< ?n]))"
    unfolding ms_body by (simp del: ms.simps upt_Suc)
  moreover from c have "caps st' = caps st @ [c]" by (simp add: caps_advance)
  ultimately show ?thesis by blast
qed

lemma ms_pattern:
  "ms shacl_pattern st =
     (if take 3 (ahead st) = fence
      then (if take 6 (drop 3 (ahead st)) = ''turtle''
            then ms (Then (Star is_space) (Then (Grp (Lazy any_char)) (Lit fence)))
                   (advance (advance st 3) 6)
            else [])
           @ ms (Then (Star is_space) (Then (Grp (Lazy any_char)) (Lit fence))) (advance st 3)
      else [])"
proof -
  have l: "length fence = 3" by (simp add: fence_def)
  have t: "length ''turtle'' = 6" by simp
  show ?thesis
    unfolding shacl_pattern_def ms_Then_Lit ms_Then_Opt_Lit l t advance_ahead
    by (rule refl)
qed

lemma without_tag_None:
  assumes "split_fence (without_tag z) = None"
  shows "split_fence z = None"
proof (cases "take 6 z = ''turtle''")
  case True
  then have "z = ''turtle'' @ drop 6 z" by (metis append_take_drop_id)
  moreover from True assms have "split_fence (drop 6 z) = None"
    by (simp add: without_tag_def)
  then have "split_fence (''turtle'' @ drop 6 z) = None"
    by (rule split_fence_prepend_None[rotated]) (simp add: backtick_def)
  ultimately show ?thesis by simp
next
  case False
  with assms show ?thesis by (simp add: without_tag_def)
qed

lemma ms_pattern_None:
  assumes "split_fence (drop 3 (ahead st)) = None"
  shows "ms shacl_pattern st = []"
proof -
  have "ms (Then (Star is_space) (Then (Grp (Lazy any_char)) (Lit fence))) (advance st 3) = []"
    by (rule ms_body_None) (simp add: advance_ahead assms)
  moreover
  have "ms (Then (Star is_space) (Then (Grp (Lazy any_char)) (Lit fence)))
          (advance (advance st 3) 6) = []"
    by (rule ms_body_None) (simp only: advance_ahead split_fence_drop[OF assms])
  ultimately show ?thesis unfolding ms_pattern by (simp del: ms.simps)
qed

lemma ms_pattern_Some:
  assumes f: "take 3 (ahead st) = fence"
    and s: "split_fence (without_tag (drop 3 (ahead st))) = Some (c, a)"
  shows "\<exists>st' tl c'. ms shacl_pattern st = st' # tl \<and> caps st' = caps st @ [c']
           \<and> strip c' = strip c"
proof -
  let ?body = "Then (Star is_space) (Then (Grp (Lazy any_char)) (Lit fence))"
  let ?z = "drop 3 (ahead st)"
  let ?w = "without_tag ?z"
  let ?ws = "takeWhile is_space ?w"
  have sp: "\<forall>x \<in> set ?ws. is_space x" by (auto dest: set_takeWhileD)
  then have nb: "backtick \<notin> set ?ws" using space_not_backtick by blast
  have "?w = ?ws @ dropWhile is_space ?w" by simp
  with s have "split_fence (?ws @ dropWhile is_space ?w) = Some (c, a)" by simp
  from split_fence_prepend_Some[OF nb this] obtain c'
    where s': "split_fence (dropWhile is_space ?w) = Some (c', a)" and c: "c = ?ws @ c'"
    by blast
  from c sp have st: "strip c' = strip c" by (simp add: strip_spaces)
  show ?thesis
  proof (cases "take 6 ?z = ''turtle''")
    case True
    then have "ahead (advance (advance st 3) 6) = ?w"
      by (simp add: advance_ahead without_tag_def)
    with s' have "split_fence (dropWhile is_space (ahead (advance (advance st 3) 6)))
        = Some (c', a)" by simp
    from ms_body_Some[OF this] obtain st' tl
      where "ms ?body (advance (advance st 3) 6) = st' # tl"
        and "caps st' = caps (advance (advance st 3) 6) @ [c']" by blast
    with f True st show ?thesis unfolding ms_pattern
      by (simp add: caps_advance del: ms.simps)
  next
    case False
    then have "ahead (advance st 3) = ?w" by (simp add: advance_ahead without_tag_def)
    with s' have "split_fence (dropWhile is_space (ahead (advance st 3))) = Some (c', a)"
      by simp
    from ms_body_Some[OF this] obtain st' tl
      where "ms ?body (advance st 3) = st' # tl"
        and "caps st' = caps (advance st 3) @ [c']" by blast
    with f False st show ?thesis unfolding ms_pattern
      by (simp add: caps_advance del: ms.simps)
  qed
qed

lemma ms_pattern_no_fence: "take 3 (ahead st) \<noteq> fence \<Longrightarrow> ms shacl_pattern st = []"
  unfolding ms_pattern by (simp del: ms.simps)

lemma search_None:
  "split_fence (drop 3 s) = None \<Longrightarrow> search_from shacl_pattern b s = None"
proof (induction s arbitrary: b)
  case Nil
  then show ?case by (simp add: first_match_hd ms_pattern_None)
next
  case (Cons c cs)
  have "drop 3 cs = drop 1 (drop 3 (c # cs))" by (simp add: numeral_3_eq_3)
  with Cons.prems have "split_fence (drop 3 cs) = None" by (simp only: split_fence_drop)
  with Cons.IH have "search_from shacl_pattern (c # b) cs = None" by blast
  with Cons.prems show ?case by (simp add: first_match_hd ms_pattern_None)
qed

lemma search_no_fence:
  "split_fence s = None \<Longrightarrow> search_from shacl_pattern b s = None"
  by (rule search_None) (rule split_fence_drop)

lemma search_unclosed:
  "split_fence s = Some (before, z) \<Longrightarrow> split_fence z = None \<Longrightarrow>
   search_from shacl_pattern b s = None"
proof (induction s arbitrary: b before)
  case Nil
  then show ?case by simp
next
  case (Cons c cs)
  show ?case
  proof (cases "take 3 (c # cs) = fence")
    case True
    with Cons.prems have z: "z = drop 3 (c # cs)" by simp
    with Cons.prems have m: "ms shacl_pattern \<lparr>behind = b, ahead = c # cs, caps = []\<rparr> = []"
      by (simp add: ms_pattern_None)
    have "drop 3 cs = drop 1 z" unfolding z by (simp add: numeral_3_eq_3)
    with Cons.prems have "split_fence (drop 3 cs) = None" by (simp only: split_fence_drop)
    then have "search_from shacl_pattern (c # b) cs = None" by (rule search_None)
    with m show ?thesis by (simp add: first_match_hd)
  next
    case False
    with Cons.prems obtain b' where "split_fence cs = Some (b', z)"
      by (auto split: option.splits prod.splits)
    from Cons.IH[OF this Cons.prems(2)]
    have "search_from shacl_pattern (c # b) cs = None" .
    with False show ?thesis by (simp add: first_match_hd ms_pattern_no_fence)
  qed
qed

lemma search_closed:
  "split_fence s = Some (before, z) \<Longrightarrow> split_fence (without_tag z) = Some (c, a) \<Longrightarrow>
   \<exists>c'. search_from shacl_pattern b s = Some [c'] \<and> strip c' = strip c"
proof (induction s arbitrary: b before)
  case Nil
  then show ?case by simp
next
  case (Cons x xs)
  show ?case
  proof (cases "take 3 (x # xs) = fence")
    case True
    with Cons.prems have z: "z = drop 3 (x # xs)" by simp
    let ?st = "\<lparr>behind = b, ahead = x # xs, caps = []\<rparr>"
    from True have f: "take 3 (ahead ?st) = fence" by simp
    from Cons.prems z have "split_fence (without_tag (drop 3 (ahead ?st))) = Some (c, a)"
      by simp
    from ms_pattern_Some[OF f this] obtain st' tl c'
      where "ms shacl_pattern ?st = st' # tl" and "caps st' = [c']" and "strip c' = strip c"
      by auto
    then show ?thesis by (simp add: first_match_hd)
  next
    case False
    with Cons.prems obtain b' where "split_fence xs = Some (b', z)"
      by (auto split: option.splits prod.splits)
    from Cons.IH[OF this Cons.prems(2)] obtain c'
      where "search_from shacl_pattern (x # b) xs = Some [c']" and "strip c' = strip c"
      by blast
    with False show ?thesis by (simp add: first_match_hd ms_pattern_no_fence)
  qed
qed

text \<open>The sample replies.\<close>

lemma sample_reply_block: "first_fenced_block sample_reply = Some ([newline] @ sample_block @ [newline])"
  by code_simp

lemma sample_block_strip: "strip ([newline] @ sample_block @ [newline]) = sample_block"
  by code_simp

lemma no_fence_block: "first_fenced_block reply_without_fence = None"
  by code_simp

lemma no_fence_strip: "strip reply_without_fence = ''ex:PersonShape a sh:NodeShape .''"
  by code_simp

lemma unclosed_block: "first_fenced_block reply_unclosed = None"
  by code_simp

lemma unclosed_strip: "strip reply_unclosed = reply_unclosed"
  by code_simp

text \<open>
  Claim C10.  For every text, \<open>extract_shacl_code\<close> returns the stripped contents of the
  first fenced code block of the text: the block starts behind the first fence and the
  tag \<open>turtle\<close>, if the tag follows the fence, and ends before the next fence, and its
  contents may span several lines.  Where the text has no fenced block, that is no
  fence at all or no fence behind the first one, it returns the whole text, stripped.
\<close>

theorem extract_first_block:
  "extract_shacl_code text
     = (case first_fenced_block text of
          Some contents \<Rightarrow> strip contents
        | None \<Rightarrow> strip text)"
proof (cases "split_fence text")
  case None
  then show ?thesis
    by (simp add: extract_shacl_code_def first_fenced_block_def
        re_search_def search_no_fence)
next
  case (Some p)
  obtain before z where p: "p = (before, z)" by (cases p)
  show ?thesis
  proof (cases "split_fence (without_tag z)")
    case None
    then have "split_fence z = None" by (rule without_tag_None)
    with Some p have "search_from shacl_pattern [] text = None"
      by (simp add: search_unclosed)
    with Some p None show ?thesis
      by (simp add: extract_shacl_code_def first_fenced_block_def re_search_def)
  next
    case s: (Some q)
    obtain c a where q: "q = (c, a)" by (cases q)
    from Some p s q search_closed[of "text" before z c a "[]"] obtain c'
      where "search_from shacl_pattern [] text = Some [c']" and "strip c' = strip c"
      by auto
    with Some p s q show ?thesis
      by (simp add: extract_shacl_code_def first_fenced_block_def re_search_def)
  qed
qed

theorem extract_first_block_witness:
  "extract_shacl_code sample_reply = sample_block
   \<and> extract_shacl_code reply_without_fence = ''ex:PersonShape a sh:NodeShape .''
   \<and> extract_shacl_code reply_unclosed = reply_unclosed"
proof -
  have a: "extract_shacl_code sample_reply = sample_block"
    using extract_first_block[of sample_reply]
    by (simp only: sample_reply_block option.case sample_block_strip)
  have b: "extract_shacl_code reply_without_fence = ''ex:PersonShape a sh:NodeShape .''"
    using extract_first_block[of reply_without_fence]
    by (simp only: no_fence_block option.case no_fence_strip)
  have c: "extract_shacl_code reply_unclosed = reply_unclosed"
    using extract_first_block[of reply_unclosed]
    by (simp only: unclosed_block option.case unclosed_strip)
  from a b c show ?thesis by (intro conjI)
qed

section \<open>The attempts of \<open>ask\<close>\<close>

text \<open>
  One turn of the loop in each of its outcomes, the turns of the failed attempts taken
  together, and the four ways in which a call of \<open>ask\<close> ends.
\<close>

lemma ask_loop_none:
  "\<not> attempt < max_retries \<Longrightarrow> ask_loop api prompt model max_retries attempt c = (Inr None, c)"
  by (subst ask_loop.simps) simp

lemma ask_loop_success:
  "attempt < max_retries \<Longrightarrow> api model (history c @ [user_message prompt]) = Inr r \<Longrightarrow>
   ask_loop api prompt model max_retries attempt c
     = (Inr (Some r),
        c\<lparr>history := history c @ [user_message prompt, assistant_message r],
          trace := trace c @ [Create model (history c @ [user_message prompt])]\<rparr>)"
  by (subst ask_loop.simps) (simp add: Let_def)

lemma ask_loop_interrupt:
  "attempt < max_retries \<Longrightarrow>
   api model (history c @ [user_message prompt]) = Inl (BaseExn cls m) \<Longrightarrow>
   ask_loop api prompt model max_retries attempt c
     = (Inl (BaseExn cls m),
        c\<lparr>history := history c @ [user_message prompt],
          trace := trace c @ [Create model (history c @ [user_message prompt])]\<rparr>)"
  by (subst ask_loop.simps) (simp add: Let_def)

lemma ask_loop_last:
  "attempt < max_retries \<Longrightarrow> \<not> attempt < max_retries - 1 \<Longrightarrow>
   api model (history c @ [user_message prompt]) = Inl (Exn cls m) \<Longrightarrow>
   ask_loop api prompt model max_retries attempt c
     = (Inl (Exn ''Exception''
               (''Error communicating with OpenAI API after ''
                @ str_int max_retries @ '' attempts: '' @ m)),
        c\<lparr>history := history c @ [user_message prompt],
          trace := trace c @ [Create model (history c @ [user_message prompt])]\<rparr>)"
  by (subst ask_loop.simps) (simp add: Let_def)

lemma ask_loop_retry:
  "attempt < max_retries - 1 \<Longrightarrow>
   api model (history c @ [user_message prompt]) = Inl (Exn cls m) \<Longrightarrow>
   ask_loop api prompt model max_retries attempt c
     = ask_loop api prompt model max_retries (attempt + 1)
         (c\<lparr>history := history c @ [user_message prompt],
            trace := trace c @ [Create model (history c @ [user_message prompt]), Sleep 5]\<rparr>)"
  by (subst ask_loop.simps) (simp add: Let_def)

lemma failed_iff: "failed outcome = (\<exists>cls m. outcome = Inl (Exn cls m))"
  by (auto simp: failed_def split: sum.splits exn.splits)

lemma not_failed:
  "\<not> failed outcome \<Longrightarrow>
   (\<exists>r. outcome = Inr r) \<or> (\<exists>cls m. outcome = Inl (BaseExn cls m))"
  by (auto simp: failed_def split: sum.splits exn.splits)

lemma ask_loop_retries:
  "\<forall>j<k. failed (api model (attempt_history c prompt j)) \<Longrightarrow> attempt + int k < max_retries \<Longrightarrow>
   ask_loop api prompt model max_retries attempt c
     = ask_loop api prompt model max_retries (attempt + int k) (retried c prompt model k)"
proof (induction k)
  case 0
  show ?case by (simp add: retried_def retries_trace_def)
next
  case (Suc k)
  from Suc.prems have f: "failed (api model (attempt_history c prompt k))" by simp
  then obtain cls m where
    e: "api model (history (retried c prompt model k) @ [user_message prompt]) = Inl (Exn cls m)"
    by (auto simp: failed_iff attempt_history_def retried_def replicate_append_same)
  from Suc.prems have lt: "attempt + int k < max_retries - 1" by simp
  from Suc have "ask_loop api prompt model max_retries attempt c
      = ask_loop api prompt model max_retries (attempt + int k) (retried c prompt model k)"
    by simp
  also have "\<dots> = ask_loop api prompt model max_retries (attempt + int k + 1)
      ((retried c prompt model k)\<lparr>history := history (retried c prompt model k) @ [user_message prompt],
         trace := trace (retried c prompt model k)
                  @ [Create model (history (retried c prompt model k) @ [user_message prompt]),
                     Sleep 5]\<rparr>)"
    by (rule ask_loop_retry[where api = api and model = model and prompt = prompt
          and c = "retried c prompt model k", OF lt e])
  also have "(retried c prompt model k)\<lparr>history := history (retried c prompt model k) @ [user_message prompt],
         trace := trace (retried c prompt model k)
                  @ [Create model (history (retried c prompt model k) @ [user_message prompt]),
                     Sleep 5]\<rparr> = retried c prompt model (Suc k)"
    by (simp add: retried_def retries_trace_def attempt_history_def replicate_append_same)
  finally show ?case by (simp add: algebra_simps)
qed


lemma retried_history:
  "history (retried c prompt model k) @ [user_message prompt] = attempt_history c prompt k"
  by (simp add: retried_def attempt_history_def replicate_append_same)

lemma retried_after:
  "(retried c prompt model k)
     \<lparr>history := attempt_history c prompt k,
      trace := trace (retried c prompt model k) @ [Create model (attempt_history c prompt k)]\<rparr>
   = after_attempt c prompt model k"
  by (simp add: retried_def after_attempt_def)

lemma ask_none: "max_retries \<le> 0 \<Longrightarrow> ask api prompt model max_retries c = (Inr None, c)"
  by (simp add: ask_def ask_loop_none)

lemma ask_success:
  assumes "int k < max_retries"
    and "\<forall>j<k. failed (api model (attempt_history c prompt j))"
    and "api model (attempt_history c prompt k) = Inr r"
  shows "ask api prompt model max_retries c
     = (Inr (Some r),
        (after_attempt c prompt model k)
          \<lparr>history := attempt_history c prompt k @ [assistant_message r]\<rparr>)"
proof -
  from assms(1,2) have "ask api prompt model max_retries c
      = ask_loop api prompt model max_retries (int k) (retried c prompt model k)"
    unfolding ask_def using ask_loop_retries[of k api model c prompt 0 max_retries] by simp
  also have "\<dots> = (Inr (Some r),
      (retried c prompt model k)
        \<lparr>history := history (retried c prompt model k)
                    @ [user_message prompt, assistant_message r],
         trace := trace (retried c prompt model k)
                  @ [Create model (history (retried c prompt model k) @ [user_message prompt])]\<rparr>)"
    by (rule ask_loop_success[where api = api and model = model and prompt = prompt
          and c = "retried c prompt model k"])
       (simp_all add: assms retried_history)
  also have "\<dots> = (Inr (Some r),
      (after_attempt c prompt model k)
        \<lparr>history := attempt_history c prompt k @ [assistant_message r]\<rparr>)"
    by (simp add: retried_def after_attempt_def attempt_history_def replicate_append_same)
  finally show ?thesis .
qed

lemma ask_interrupt:
  assumes "int k < max_retries"
    and "\<forall>j<k. failed (api model (attempt_history c prompt j))"
    and "api model (attempt_history c prompt k) = Inl (BaseExn cls m)"
  shows "ask api prompt model max_retries c
     = (Inl (BaseExn cls m), after_attempt c prompt model k)"
proof -
  from assms(1,2) have "ask api prompt model max_retries c
      = ask_loop api prompt model max_retries (int k) (retried c prompt model k)"
    unfolding ask_def using ask_loop_retries[of k api model c prompt 0 max_retries] by simp
  also have "\<dots> = (Inl (BaseExn cls m),
      (retried c prompt model k)
        \<lparr>history := history (retried c prompt model k) @ [user_message prompt],
         trace := trace (retried c prompt model k)
                  @ [Create model (history (retried c prompt model k) @ [user_message prompt])]\<rparr>)"
    by (rule ask_loop_interrupt[where api = api and model = model and prompt = prompt
          and c = "retried c prompt model k"])
       (simp_all add: assms retried_history)
  also have "\<dots> = (Inl (BaseExn cls m), after_attempt c prompt model k)"
    by (simp add: retried_def after_attempt_def attempt_history_def replicate_append_same)
  finally show ?thesis .
qed

lemma ask_exhausted:
  assumes "0 < max_retries"
    and "\<forall>j < nat max_retries - 1. failed (api model (attempt_history c prompt j))"
    and "api model (attempt_history c prompt (nat max_retries - 1)) = Inl (Exn cls m)"
  shows "ask api prompt model max_retries c
     = (Inl (Exn ''Exception''
               (''Error communicating with OpenAI API after ''
                @ str_int max_retries @ '' attempts: '' @ m)),
        after_attempt c prompt model (nat max_retries - 1))"
proof -
  let ?k = "nat max_retries - 1"
  from assms(1) have k: "int ?k = max_retries - 1" by simp
  with assms(2) have "ask api prompt model max_retries c
      = ask_loop api prompt model max_retries (int ?k) (retried c prompt model ?k)"
    unfolding ask_def using ask_loop_retries[of ?k api model c prompt 0 max_retries] by simp
  also have "\<dots> = (Inl (Exn ''Exception''
               (''Error communicating with OpenAI API after ''
                @ str_int max_retries @ '' attempts: '' @ m)),
      (retried c prompt model ?k)
        \<lparr>history := history (retried c prompt model ?k) @ [user_message prompt],
         trace := trace (retried c prompt model ?k)
                  @ [Create model (history (retried c prompt model ?k) @ [user_message prompt])]\<rparr>)"
  proof -
    have p1: "int ?k < max_retries" using assms(1) by arith
    have p2: "\<not> int ?k < max_retries - 1" using assms(1) by arith
    have p3: "api model (history (retried c prompt model ?k) @ [user_message prompt])
        = Inl (Exn cls m)"
      unfolding retried_history by (rule assms(3))
    show ?thesis
      by (rule ask_loop_last[where api = api and model = model and prompt = prompt
            and c = "retried c prompt model ?k" and cls = cls and m = m, OF p1 p2 p3])
  qed
  also have "\<dots> = (Inl (Exn ''Exception''
               (''Error communicating with OpenAI API after ''
                @ str_int max_retries @ '' attempts: '' @ m)),
      after_attempt c prompt model ?k)"
    by (simp add: retried_def after_attempt_def attempt_history_def replicate_append_same)
  finally show ?thesis .
qed

lemma first_not_failed:
  assumes "\<not> (\<forall>j<n. failed (f j))"
  obtains k :: nat where "k < n" and "\<not> failed (f k)" and "\<forall>j<k. failed (f j)"
proof -
  from assms have "\<exists>k. k < n \<and> \<not> failed (f k)" by blast
  then have "\<exists>k. (k < n \<and> \<not> failed (f k)) \<and> (\<forall>j<k. \<not> (j < n \<and> \<not> failed (f j)))"
    by (subst (asm) exists_least_iff) blast
  then obtain k where "k < n" "\<not> failed (f k)" "\<forall>j<k. \<not> (j < n \<and> \<not> failed (f j))"
    by blast
  then show ?thesis using that by (metis less_trans)
qed

lemma ask_cases:
  "(max_retries \<le> 0 \<and> ask api prompt model max_retries c = (Inr None, c))
   \<or> (\<exists>k r. int k < max_retries
          \<and> (\<forall>j<k. failed (api model (attempt_history c prompt j)))
          \<and> api model (attempt_history c prompt k) = Inr r
          \<and> ask api prompt model max_retries c
              = (Inr (Some r),
                 (after_attempt c prompt model k)
                   \<lparr>history := attempt_history c prompt k @ [assistant_message r]\<rparr>))
   \<or> (\<exists>k cls m. int k < max_retries
          \<and> (\<forall>j<k. failed (api model (attempt_history c prompt j)))
          \<and> api model (attempt_history c prompt k) = Inl (BaseExn cls m)
          \<and> ask api prompt model max_retries c
              = (Inl (BaseExn cls m), after_attempt c prompt model k))
   \<or> (\<exists>cls m. 0 < max_retries
          \<and> (\<forall>j < nat max_retries. failed (api model (attempt_history c prompt j)))
          \<and> api model (attempt_history c prompt (nat max_retries - 1)) = Inl (Exn cls m)
          \<and> ask api prompt model max_retries c
              = (Inl (Exn ''Exception''
                        (''Error communicating with OpenAI API after ''
                         @ str_int max_retries @ '' attempts: '' @ m)),
                 after_attempt c prompt model (nat max_retries - 1)))"
proof (cases "max_retries \<le> 0")
  case True
  then show ?thesis by (simp add: ask_none)
next
  case False
  then have pos: "0 < max_retries" by simp
  show ?thesis
  proof (cases "\<forall>j < nat max_retries. failed (api model (attempt_history c prompt j))")
    case True
    with pos have "failed (api model (attempt_history c prompt (nat max_retries - 1)))"
      by simp
    then obtain cls m
      where e: "api model (attempt_history c prompt (nat max_retries - 1)) = Inl (Exn cls m)"
      by (auto simp: failed_iff)
    from True have "\<forall>j < nat max_retries - 1. failed (api model (attempt_history c prompt j))"
      by simp
    from ask_exhausted[where api = api and model = model and c = c and prompt = prompt,
        OF pos this e] pos True e show ?thesis by blast
  next
    case False
    then obtain k where k: "k < nat max_retries"
      and nf: "\<not> failed (api model (attempt_history c prompt k))"
      and f: "\<forall>j<k. failed (api model (attempt_history c prompt j))"
      by (rule first_not_failed)
    from k have lt: "int k < max_retries" by simp
    from not_failed[OF nf] show ?thesis
    proof
      assume "\<exists>r. api model (attempt_history c prompt k) = Inr r"
      then obtain r where r: "api model (attempt_history c prompt k) = Inr r" ..
      from ask_success[where api = api and model = model and c = c and prompt = prompt,
          OF lt f r] lt f r show ?thesis by blast
    next
      assume "\<exists>cls m. api model (attempt_history c prompt k) = Inl (BaseExn cls m)"
      then obtain cls m where r: "api model (attempt_history c prompt k) = Inl (BaseExn cls m)"
        by blast
      from ask_interrupt[where api = api and model = model and c = c and prompt = prompt,
          OF lt f r] lt f r show ?thesis by blast
    qed
  qed
qed



lemma sample_str_int: "str_int 2 = ''2''"
  by code_simp


section \<open>How often \<open>ask\<close> tries\<close>

text \<open>
  Claim C4, amended.  Let \<open>max_retries\<close> be at least 1, and let the attempts of a call of
  \<open>ask\<close> be counted from 0, an attempt failing when the service raises an exception of
  class \<open>Exception\<close>.  The call attempts in sequence, at most \<open>max_retries\<close> times, and
  sleeps five seconds after each failed attempt but the last of the \<open>max_retries\<close>.  It
  returns the content of the reply at the first attempt that succeeds.  An exception
  outside the class \<open>Exception\<close> at an attempt leaves \<open>ask\<close> at once, with no further
  attempt.  Where all \<open>max_retries\<close> attempts fail, \<open>ask\<close> raises an \<open>Exception\<close> whose
  message names \<open>max_retries\<close> and the message of the last failure; and it raises an
  exception of class \<open>Exception\<close> exactly when all \<open>max_retries\<close> attempts fail.
\<close>

theorem ask_attempts:
  "(\<forall>k r. int k < max_retries
          \<and> (\<forall>j<k. failed (api model (attempt_history c prompt j)))
          \<and> api model (attempt_history c prompt k) = Inr r
        \<longrightarrow> ask api prompt model max_retries c
              = (Inr (Some r),
                 (after_attempt c prompt model k)
                   \<lparr>history := attempt_history c prompt k @ [assistant_message r]\<rparr>))
   \<and> (\<forall>k cls m. int k < max_retries
          \<and> (\<forall>j<k. failed (api model (attempt_history c prompt j)))
          \<and> api model (attempt_history c prompt k) = Inl (BaseExn cls m)
        \<longrightarrow> ask api prompt model max_retries c
              = (Inl (BaseExn cls m), after_attempt c prompt model k))
   \<and> (\<forall>cls m. 0 < max_retries
          \<and> (\<forall>j < nat max_retries - 1. failed (api model (attempt_history c prompt j)))
          \<and> api model (attempt_history c prompt (nat max_retries - 1)) = Inl (Exn cls m)
        \<longrightarrow> ask api prompt model max_retries c
              = (Inl (Exn ''Exception''
                        (''Error communicating with OpenAI API after ''
                         @ str_int max_retries @ '' attempts: '' @ m)),
                 after_attempt c prompt model (nat max_retries - 1)))
   \<and> (0 < max_retries \<longrightarrow>
        (\<exists>cls m. fst (ask api prompt model max_retries c) = Inl (Exn cls m))
        = (\<forall>j < nat max_retries. failed (api model (attempt_history c prompt j))))"
proof (intro conjI allI impI)
  fix k r
  assume "int k < max_retries
          \<and> (\<forall>j<k. failed (api model (attempt_history c prompt j)))
          \<and> api model (attempt_history c prompt k) = Inr r"
  then show "ask api prompt model max_retries c
              = (Inr (Some r),
                 (after_attempt c prompt model k)
                   \<lparr>history := attempt_history c prompt k @ [assistant_message r]\<rparr>)"
    using ask_success[where api = api and model = model and c = c and prompt = prompt
        and k = k and r = r and max_retries = max_retries] by blast
next
  fix k cls m
  assume "int k < max_retries
          \<and> (\<forall>j<k. failed (api model (attempt_history c prompt j)))
          \<and> api model (attempt_history c prompt k) = Inl (BaseExn cls m)"
  then show "ask api prompt model max_retries c
              = (Inl (BaseExn cls m), after_attempt c prompt model k)"
    using ask_interrupt[where api = api and model = model and c = c and prompt = prompt
        and k = k and cls = cls and m = m and max_retries = max_retries] by blast
next
  fix cls m
  assume "0 < max_retries
          \<and> (\<forall>j < nat max_retries - 1. failed (api model (attempt_history c prompt j)))
          \<and> api model (attempt_history c prompt (nat max_retries - 1)) = Inl (Exn cls m)"
  then show "ask api prompt model max_retries c
              = (Inl (Exn ''Exception''
                        (''Error communicating with OpenAI API after ''
                         @ str_int max_retries @ '' attempts: '' @ m)),
                 after_attempt c prompt model (nat max_retries - 1))"
    using ask_exhausted[where api = api and model = model and c = c and prompt = prompt
        and cls = cls and m = m and max_retries = max_retries] by blast
next
  assume pos: "0 < max_retries"
  show "(\<exists>cls m. fst (ask api prompt model max_retries c) = Inl (Exn cls m))
        = (\<forall>j < nat max_retries. failed (api model (attempt_history c prompt j)))"
  proof
    assume raised: "\<exists>cls m. fst (ask api prompt model max_retries c) = Inl (Exn cls m)"
    from ask_cases[of max_retries api prompt model c] raised
    show "\<forall>j < nat max_retries. failed (api model (attempt_history c prompt j))"
      by (elim disjE exE conjE) auto
  next
    assume a: "\<forall>j < nat max_retries. failed (api model (attempt_history c prompt j))"
    with pos have "failed (api model (attempt_history c prompt (nat max_retries - 1)))"
      by simp
    then obtain cls m
      where e: "api model (attempt_history c prompt (nat max_retries - 1)) = Inl (Exn cls m)"
      by (auto simp: failed_iff)
    from a have "\<forall>j < nat max_retries - 1. failed (api model (attempt_history c prompt j))"
      by simp
    from ask_exhausted[where api = api and model = model and c = c and prompt = prompt
        and cls = cls and m = m and max_retries = max_retries, OF pos this e]
    show "\<exists>cls m. fst (ask api prompt model max_retries c) = Inl (Exn cls m)" by simp
  qed
qed

theorem ask_attempts_witness:
  "ask api_third ''Which types?'' ''gpt-4o'' 3 OpenAIClient_init
     = (Inr (Some ''Person''),
        \<lparr>history = [system_message, user_message ''Which types?'',
                     user_message ''Which types?'', user_message ''Which types?'',
                     assistant_message ''Person''],
         trace = [Create ''gpt-4o'' [system_message, user_message ''Which types?''],
                  Sleep 5,
                  Create ''gpt-4o'' [system_message, user_message ''Which types?'',
                                     user_message ''Which types?''],
                  Sleep 5,
                  Create ''gpt-4o'' [system_message, user_message ''Which types?'',
                                     user_message ''Which types?'',
                                     user_message ''Which types?'']]\<rparr>)
   \<and> ask api_interrupted ''Which types?'' ''gpt-4o'' 3 OpenAIClient_init
     = (Inl (BaseExn ''KeyboardInterrupt'' []),
        \<lparr>history = [system_message, user_message ''Which types?''],
         trace = [Create ''gpt-4o'' [system_message, user_message ''Which types?'']]\<rparr>)
   \<and> ask api_down ''Which types?'' ''gpt-4o'' 2 OpenAIClient_init
     = (Inl (Exn ''Exception''
               ''Error communicating with OpenAI API after 2 attempts: Connection error.''),
        \<lparr>history = [system_message, user_message ''Which types?'',
                     user_message ''Which types?''],
         trace = [Create ''gpt-4o'' [system_message, user_message ''Which types?''],
                  Sleep 5,
                  Create ''gpt-4o'' [system_message, user_message ''Which types?'',
                                     user_message ''Which types?'']]\<rparr>)
   \<and> (\<exists>cls m. fst (ask api_down ''Which types?'' ''gpt-4o'' 2 OpenAIClient_init)
                 = Inl (Exn cls m))"
proof -
  note t2 = ask_attempts[where max_retries = 3 and api = api_third and prompt = "''Which types?''"
      and model = "''gpt-4o''" and c = OpenAIClient_init]
  note t3 = ask_attempts[where max_retries = 3 and api = api_interrupted and prompt = "''Which types?''"
      and model = "''gpt-4o''" and c = OpenAIClient_init]
  note t4 = ask_attempts[where max_retries = 2 and api = api_down and prompt = "''Which types?''"
      and model = "''gpt-4o''" and c = OpenAIClient_init]
  have b: "ask api_third ''Which types?'' ''gpt-4o'' 3 OpenAIClient_init
     = (Inr (Some ''Person''),
        \<lparr>history = [system_message, user_message ''Which types?'',
                     user_message ''Which types?'', user_message ''Which types?'',
                     assistant_message ''Person''],
         trace = [Create ''gpt-4o'' [system_message, user_message ''Which types?''],
                  Sleep 5,
                  Create ''gpt-4o'' [system_message, user_message ''Which types?'',
                                     user_message ''Which types?''],
                  Sleep 5,
                  Create ''gpt-4o'' [system_message, user_message ''Which types?'',
                                     user_message ''Which types?'',
                                     user_message ''Which types?'']]\<rparr>)"
    using t2[THEN conjunct1, rule_format, of 2 "''Person''"]
    by (simp add: api_third_def failed_def after_attempt_def retries_trace_def
        attempt_history_def OpenAIClient_init_def eval_nat_numeral)
  have c: "ask api_interrupted ''Which types?'' ''gpt-4o'' 3 OpenAIClient_init
     = (Inl (BaseExn ''KeyboardInterrupt'' []),
        \<lparr>history = [system_message, user_message ''Which types?''],
         trace = [Create ''gpt-4o'' [system_message, user_message ''Which types?'']]\<rparr>)"
    using t3[THEN conjunct2, THEN conjunct1, rule_format,
        of 0 "''KeyboardInterrupt''" "[]"]
    by (simp add: api_interrupted_def after_attempt_def retries_trace_def
        attempt_history_def OpenAIClient_init_def)
  have d: "ask api_down ''Which types?'' ''gpt-4o'' 2 OpenAIClient_init
     = (Inl (Exn ''Exception''
               ''Error communicating with OpenAI API after 2 attempts: Connection error.''),
        \<lparr>history = [system_message, user_message ''Which types?'',
                     user_message ''Which types?''],
         trace = [Create ''gpt-4o'' [system_message, user_message ''Which types?''],
                  Sleep 5,
                  Create ''gpt-4o'' [system_message, user_message ''Which types?'',
                                     user_message ''Which types?'']]\<rparr>)"
    using t4[THEN conjunct2, THEN conjunct2, THEN conjunct1, rule_format,
        of "''APIConnectionError''" "''Connection error.''"]
    by (simp add: api_down_def failed_def after_attempt_def retries_trace_def
        attempt_history_def OpenAIClient_init_def sample_str_int eval_nat_numeral)
  have e: "\<exists>cls m. fst (ask api_down ''Which types?'' ''gpt-4o'' 2 OpenAIClient_init)
                 = Inl (Exn cls m)"
    using t4[THEN conjunct2, THEN conjunct2, THEN conjunct2]
    by (simp add: api_down_def failed_def)
  from b c d e show ?thesis by (intro conjI)
qed

text \<open>
  With \<open>max_retries = 0\<close> the loop has no turn: \<open>ask\<close> returns \<open>None\<close> and raises nothing,
  though none of its attempts succeeded.  With a service interrupted from the keyboard,
  \<open>ask\<close> raises after one attempt of three.
\<close>

theorem ask_without_attempt:
  "ask api_down ''Which types?'' ''gpt-4o'' 0 OpenAIClient_init = (Inr None, OpenAIClient_init)
   \<and> ask api_interrupted ''Which types?'' ''gpt-4o'' 3 OpenAIClient_init
     = (Inl (BaseExn ''KeyboardInterrupt'' []),
        \<lparr>history = [system_message, user_message ''Which types?''],
         trace = [Create ''gpt-4o'' [system_message, user_message ''Which types?'']]\<rparr>)"
  unfolding ask_def
  by (subst ask_loop.simps, subst (2) ask_loop.simps)
     (simp add: api_interrupted_def OpenAIClient_init_def Let_def)

section \<open>The history only grows\<close>



section \<open>The dictionary of the second step\<close>




lemma assign_properties_none: "assign_properties d entity [] = d"
  by simp













end
